theory Spec2Isabelle
  imports Complex_Main
begin

section \<open>Configuration holder (config\_file.py)\<close>

text \<open>
  The dataclass \<open>FormFillerConfig\<close>. Durations are Python floats; they are only compared
  with zero and handed to the host, so they are modelled as reals.
\<close>

record FormFillerConfig =
  pause_between_actions :: real
  typing_interval :: real
  field_transition_delay :: real
  form_submission_delay :: real
  record_delay :: real
  page_load_delay :: real
  wait_for_page_load :: bool
  clear_fields :: bool
  use_failsafe :: bool
  navigation_method :: string
  submission_method :: string
  skip_empty_fields :: bool
  max_field_length :: "int option"
  encoding :: string
  max_records_per_session :: "int option"
  confirmation_required :: bool
  log_level :: string
  log_file :: "string option"
  screen_resolution :: "(int \<times> int) option"

text \<open>The field defaults of the dataclass (\<open>DEFAULT_CONFIG = FormFillerConfig()\<close>).\<close>

definition DEFAULT_CONFIG :: FormFillerConfig where
  "DEFAULT_CONFIG =
     \<lparr> pause_between_actions = 0.5,
       typing_interval = 0.05,
       field_transition_delay = 0.3,
       form_submission_delay = 2.0,
       record_delay = 1.0,
       page_load_delay = 3.0,
       wait_for_page_load = True,
       clear_fields = True,
       use_failsafe = True,
       navigation_method = ''tab'',
       submission_method = ''enter'',
       skip_empty_fields = True,
       max_field_length = None,
       encoding = ''utf-8'',
       max_records_per_session = None,
       confirmation_required = True,
       log_level = ''INFO'',
       log_file = None,
       screen_resolution = None \<rparr>"

text \<open>
  \<open>FormFillerConfig.validate\<close>: the checks in the order of the source; the first one that
  fails raises \<open>ValueError\<close> with the message given here (\<open>Inl\<close>), otherwise the method
  returns \<open>None\<close> (\<open>Inr ()\<close>).
\<close>

definition validate :: "FormFillerConfig \<Rightarrow> string + unit" where
  "validate c =
     (if pause_between_actions c < 0 then
        Inl ''pause_between_actions must be non-negative''
      else if typing_interval c < 0 then
        Inl ''typing_interval must be non-negative''
      else if navigation_method c \<notin> set [''tab'', ''enter'', ''click''] then
        Inl (''navigation_method must be 'tab', 'enter', or 'click'' @ [CHR 0x27])
      else if submission_method c \<notin> set [''enter'', ''tab_enter'', ''click''] then
        Inl (''submission_method must be 'enter', 'tab_enter', or 'click'' @ [CHR 0x27])
      else if log_level c \<notin> set [''DEBUG'', ''INFO'', ''WARNING'', ''ERROR''] then
        Inl (''log_level must be 'DEBUG', 'INFO', 'WARNING', or 'ERROR'' @ [CHR 0x27])
      else if (case max_field_length c of None \<Rightarrow> False | Some n \<Rightarrow> n \<le> 0) then
        Inl ''max_field_length must be positive or None''
      else if (case max_records_per_session c of None \<Rightarrow> False | Some n \<Rightarrow> n \<le> 0) then
        Inl ''max_records_per_session must be positive or None''
      else Inr ())"

section \<open>The host input channel and the log\<close>

text \<open>
  The sequencer talks to the host through \<open>pyautogui.hotkey\<close>, \<open>pyautogui.write\<close>,
  \<open>pyautogui.press\<close> and \<open>time.sleep\<close>. Each such call either completes or raises; which
  of the two happens is decided by the host, not by the program. A call that raises
  stands for everything that can go wrong in it: the failsafe, an interrupt by the user
  (taken to arrive while a host call is under way, where the program spends its time),
  or any other error, such as the \<open>ValueError\<close> of \<open>time.sleep\<close> on a negative length.
\<close>

datatype action =
    Hotkey "string list"
  | Write string real
  | Press string
  | Sleep real

text \<open>
  Exceptions as the handlers of the source tell them apart: \<open>pyautogui.FailSafeException\<close>,
  \<open>KeyboardInterrupt\<close> (not a subclass of \<open>Exception\<close>) and any other \<open>Exception\<close>.
\<close>

datatype exn = FailSafeException | KeyboardInterrupt | OtherException

datatype outcome = Done | Raises exn

datatype level = INFO | WARNING | ERROR

text \<open>The log and console lines of the sequencer, with the numbers they interpolate.\<close>

datatype message =
    FailSafe_triggered
  | Error_typing_text
  | Error_moving_to_next_field
  | Error_submitting_form
  | Error_filling_record
  | Unknown_navigation_method string
  | Field_not_found string
  | Processing_records int int
  | Processing_record int int
  | Failed_to_fill_record int
  | Failed_to_submit_record int
  | Successfully_processed_record int
  | Form_filling_completed
  | Interrupted_at_record int
  | Stopped_at_record int
  | FailSafe_activated
  | Unexpected_error

datatype event = Act action | Log level message | Print message

text \<open>
  The world: how many host calls have been attempted (\<open>ticks\<close>) and everything that has
  been issued or written so far, oldest first (\<open>trace\<close>). The host is a function from the
  number of a call to what happens to it.
\<close>

record world =
  ticks :: nat
  trace :: "event list"

definition init :: world where
  "init = \<lparr> ticks = 0, trace = [] \<rparr>"

definition emit :: "event \<Rightarrow> world \<Rightarrow> world" where
  "emit e w = w\<lparr> trace := trace w @ [e] \<rparr>"

definition perform :: "(nat \<Rightarrow> outcome) \<Rightarrow> action \<Rightarrow> world \<Rightarrow> (exn + unit) \<times> world" where
  "perform env a w =
     (case env (ticks w) of
        Done \<Rightarrow> (Inr (), emit (Act a) (w\<lparr> ticks := Suc (ticks w) \<rparr>))
      | Raises e \<Rightarrow> (Inl e, w\<lparr> ticks := Suc (ticks w) \<rparr>))"

text \<open>Sequencing of two steps inside one \<open>try\<close> block: an exception skips the rest.\<close>

definition bnd ::
  "(world \<Rightarrow> (exn + 'a) \<times> world) \<Rightarrow> ('a \<Rightarrow> world \<Rightarrow> (exn + 'b) \<times> world) \<Rightarrow>
   world \<Rightarrow> (exn + 'b) \<times> world" where
  "bnd m f w = (case m w of (Inl e, w') \<Rightarrow> (Inl e, w') | (Inr x, w') \<Rightarrow> f x w')"

definition ret :: "'a \<Rightarrow> world \<Rightarrow> (exn + 'a) \<times> world" where
  "ret x w = (Inr x, w)"

text \<open>
  The two handlers every action ends with:
  \<open>except pyautogui.FailSafeException\<close> logs a warning and returns \<open>False\<close>,
  \<open>except Exception\<close> logs the error and returns \<open>False\<close>. A \<open>KeyboardInterrupt\<close> is caught
  by neither and propagates.
\<close>

definition handlers :: "message \<Rightarrow> (exn + bool) \<times> world \<Rightarrow> (exn + bool) \<times> world" where
  "handlers m rw =
     (case rw of
        (Inr b, w) \<Rightarrow> (Inr b, w)
      | (Inl FailSafeException, w) \<Rightarrow> (Inr False, emit (Log WARNING FailSafe_triggered) w)
      | (Inl KeyboardInterrupt, w) \<Rightarrow> (Inl KeyboardInterrupt, w)
      | (Inl OtherException, w) \<Rightarrow> (Inr False, emit (Log ERROR m) w))"

section \<open>The sequencer (main\_form\_filler.py)\<close>

text \<open>\<open>FormFiller.type_text(text, clear_field)\<close>; \<open>text\<close> is already \<open>str(text)\<close>.\<close>

definition type_text ::
  "FormFillerConfig \<Rightarrow> (nat \<Rightarrow> outcome) \<Rightarrow> string \<Rightarrow> bool \<Rightarrow> world \<Rightarrow> (exn + bool) \<times> world" where
  "type_text cfg env text clear_field w =
     handlers Error_typing_text
       (bnd (if clear_field
             then bnd (perform env (Hotkey [''ctrl'', ''a''])) (\<lambda>_. perform env (Sleep 0.1))
             else ret ())
            (\<lambda>_. bnd (perform env (Write text (typing_interval cfg))) (\<lambda>_. ret True)) w)"

text \<open>\<open>FormFiller.move_to_next_field(method)\<close>.\<close>

definition move_to_next_field ::
  "FormFillerConfig \<Rightarrow> (nat \<Rightarrow> outcome) \<Rightarrow> string \<Rightarrow> world \<Rightarrow> (exn + bool) \<times> world" where
  "move_to_next_field cfg env method w =
     handlers Error_moving_to_next_field
       (if method = ''tab'' then
          bnd (perform env (Press ''tab''))
            (\<lambda>_. bnd (perform env (Sleep (field_transition_delay cfg))) (\<lambda>_. ret True)) w
        else if method = ''enter'' then
          bnd (perform env (Press ''enter''))
            (\<lambda>_. bnd (perform env (Sleep (field_transition_delay cfg))) (\<lambda>_. ret True)) w
        else if method = ''click'' then
          bnd (perform env (Sleep (field_transition_delay cfg))) (\<lambda>_. ret True) w
        else (Inr False, emit (Log WARNING (Unknown_navigation_method method)) w))"

text \<open>\<open>FormFiller.submit_form(method)\<close>; a method it does not know only sleeps.\<close>

definition submit_form ::
  "FormFillerConfig \<Rightarrow> (nat \<Rightarrow> outcome) \<Rightarrow> string \<Rightarrow> world \<Rightarrow> (exn + bool) \<times> world" where
  "submit_form cfg env method w =
     handlers Error_submitting_form
       (bnd (if method = ''enter'' then perform env (Press ''enter'')
             else if method = ''tab_enter'' then
               bnd (perform env (Press ''tab''))
                 (\<lambda>_. bnd (perform env (Sleep 0.5)) (\<lambda>_. perform env (Press ''enter'')))
             else ret ())
            (\<lambda>_. bnd (perform env (Sleep (form_submission_delay cfg))) (\<lambda>_. ret True)) w)"

text \<open>
  A cell of a record: \<open>NaN\<close> is the empty or missing cell (what \<open>pd.notna\<close> rejects),
  \<open>Val s\<close> any other scalar, carried as the text \<open>str\<close> gives for it.
\<close>

datatype cell = NaN | Val string

fun notna :: "cell \<Rightarrow> bool" where
  "notna NaN = False"
| "notna (Val s) = True"

fun str :: "cell \<Rightarrow> string" where
  "str NaN = ''nan''"
| "str (Val s) = s"

text \<open>
  The \<open>for field_name in field_order\<close> loop of \<open>fill_single_record\<close>. The sequencer calls
  \<open>type_text(value)\<close> and \<open>move_to_next_field()\<close> with their default arguments
  (\<open>clear_field=True\<close>, \<open>method='tab'\<close>).
\<close>

fun fill_fields ::
  "FormFillerConfig \<Rightarrow> (nat \<Rightarrow> outcome) \<Rightarrow> (string \<rightharpoonup> cell) \<Rightarrow> string list \<Rightarrow> world \<Rightarrow>
   (exn + bool) \<times> world" where
  "fill_fields cfg env rcd [] w = (Inr True, w)"
| "fill_fields cfg env rcd (field_name # rest) w =
     (case rcd field_name of
        Some v \<Rightarrow>
          (if notna v then
             (case type_text cfg env (str v) True w of
                (Inl e, w1) \<Rightarrow> (Inl e, w1)
              | (Inr False, w1) \<Rightarrow> (Inr False, w1)
              | (Inr True, w1) \<Rightarrow>
                  (case move_to_next_field cfg env ''tab'' w1 of
                     (Inl e, w2) \<Rightarrow> (Inl e, w2)
                   | (Inr False, w2) \<Rightarrow> (Inr False, w2)
                   | (Inr True, w2) \<Rightarrow> fill_fields cfg env rcd rest w2))
           else fill_fields cfg env rcd rest w)
      | None \<Rightarrow>
          (case move_to_next_field cfg env ''tab''
                  (emit (Log WARNING (Field_not_found field_name)) w) of
             (Inl e, w1) \<Rightarrow> (Inl e, w1)
           | (Inr False, w1) \<Rightarrow> (Inr False, w1)
           | (Inr True, w1) \<Rightarrow> fill_fields cfg env rcd rest w1))"

text \<open>\<open>FormFiller.fill_single_record\<close>: the loop under its \<open>except Exception\<close>.\<close>

definition fill_single_record ::
  "FormFillerConfig \<Rightarrow> (nat \<Rightarrow> outcome) \<Rightarrow> (string \<rightharpoonup> cell) \<Rightarrow> string list \<Rightarrow> world \<Rightarrow>
   (exn + bool) \<times> world" where
  "fill_single_record cfg env rcd field_order w =
     (case fill_fields cfg env rcd field_order w of
        (Inr b, w') \<Rightarrow> (Inr b, w')
      | (Inl KeyboardInterrupt, w') \<Rightarrow> (Inl KeyboardInterrupt, w')
      | (Inl _, w') \<Rightarrow> (Inr False, emit (Log ERROR Error_filling_record) w'))"

text \<open>
  \<open>data.iloc[index].to_dict()\<close>: a negative index counts from the end, an index out of
  range raises \<open>IndexError\<close>.
\<close>

definition iloc :: "(string \<rightharpoonup> cell) list \<Rightarrow> int \<Rightarrow> exn + (string \<rightharpoonup> cell)" where
  "iloc data index =
     (let n = int (length data); j = (if index < 0 then n + index else index)
      in if 0 \<le> j \<and> j < n then Inr (data ! nat j) else Inl OtherException)"

text \<open>How one pass through the body of the record loop ends.\<close>

datatype flow = Continue | Break

definition process_record ::
  "FormFillerConfig \<Rightarrow> (nat \<Rightarrow> outcome) \<Rightarrow> (string \<rightharpoonup> cell) list \<Rightarrow> string list \<Rightarrow> int \<Rightarrow>
   world \<Rightarrow> (exn + flow) \<times> world" where
  "process_record cfg env data field_order index w =
     (case iloc data index of
        Inl e \<Rightarrow> (Inl e, w)
      | Inr rcd \<Rightarrow>
          (case fill_single_record cfg env rcd field_order
                  (emit (Log INFO (Processing_record (index + 1) (int (length data)))) w) of
             (Inl e, w1) \<Rightarrow> (Inl e, w1)
           | (Inr False, w1) \<Rightarrow>
               (Inr Break, emit (Log ERROR (Failed_to_fill_record (index + 1))) w1)
           | (Inr True, w1) \<Rightarrow>
               (case submit_form cfg env ''enter'' w1 of
                  (Inl e, w2) \<Rightarrow> (Inl e, w2)
                | (Inr False, w2) \<Rightarrow>
                    (Inr Break, emit (Log ERROR (Failed_to_submit_record (index + 1))) w2)
                | (Inr True, w2) \<Rightarrow>
                    (case bnd (perform env (Sleep (record_delay cfg)))
                            (\<lambda>_. if wait_for_page_load cfg
                                  then perform env (Sleep (page_load_delay cfg))
                                  else ret ()) w2 of
                       (Inl e, w3) \<Rightarrow> (Inl e, w3)
                     | (Inr _, w3) \<Rightarrow>
                         (Inr Continue,
                          emit (Log INFO (Successfully_processed_record (index + 1))) w3)))))"

text \<open>
  The \<open>for index in range(start_row, end_row)\<close> loop of \<open>fill_forms\<close>. An exception leaves
  the loop together with the value \<open>index\<close> has at that moment, which the handler of
  \<open>KeyboardInterrupt\<close> reads.
\<close>

fun fill_loop ::
  "FormFillerConfig \<Rightarrow> (nat \<Rightarrow> outcome) \<Rightarrow> (string \<rightharpoonup> cell) list \<Rightarrow> string list \<Rightarrow> int list \<Rightarrow>
   world \<Rightarrow> (exn \<times> int + unit) \<times> world" where
  "fill_loop cfg env data field_order [] w = (Inr (), w)"
| "fill_loop cfg env data field_order (index # rest) w =
     (case process_record cfg env data field_order index w of
        (Inl e, w') \<Rightarrow> (Inl (e, index), w')
      | (Inr Break, w') \<Rightarrow> (Inr (), w')
      | (Inr Continue, w') \<Rightarrow> fill_loop cfg env data field_order rest w')"

text \<open>\<open>end_row\<close>: \<open>if max_records:\<close> is false for \<open>None\<close> and for \<open>0\<close>.\<close>

definition end_row :: "(string \<rightharpoonup> cell) list \<Rightarrow> int \<Rightarrow> int option \<Rightarrow> int" where
  "end_row data start_row max_records =
     (case max_records of
        None \<Rightarrow> int (length data)
      | Some m \<Rightarrow> if m \<noteq> 0 then min (start_row + m) (int (length data)) else int (length data))"

text \<open>\<open>FormFiller.fill_forms(data, field_order, start_row, max_records)\<close>.\<close>

definition fill_forms ::
  "FormFillerConfig \<Rightarrow> (nat \<Rightarrow> outcome) \<Rightarrow> (string \<rightharpoonup> cell) list \<Rightarrow> string list \<Rightarrow> int \<Rightarrow>
   int option \<Rightarrow> world \<Rightarrow> world" where
  "fill_forms cfg env data field_order start_row max_records w =
     (case fill_loop cfg env data field_order
             [start_row .. end_row data start_row max_records - 1]
             (emit (Log INFO (Processing_records start_row
                                (end_row data start_row max_records - 1))) w) of
        (Inr _, w') \<Rightarrow> emit (Log INFO Form_filling_completed) w'
      | (Inl (KeyboardInterrupt, index), w') \<Rightarrow>
          emit (Print (Stopped_at_record (index + 1)))
            (emit (Log INFO (Interrupted_at_record (index + 1))) w')
      | (Inl (FailSafeException, index), w') \<Rightarrow> emit (Log INFO FailSafe_activated) w'
      | (Inl (OtherException, index), w') \<Rightarrow> emit (Log ERROR Unexpected_error) w')"

section \<open>Reading a trace\<close>

text \<open>The indices of the records a run has started, in the order it started them.\<close>

fun started :: "event list \<Rightarrow> int list" where
  "started [] = []"
| "started (Log INFO (Processing_record k n) # es) = (k - 1) # started es"
| "started (e # es) = started es"

text \<open>
  The lines the record loop of \<open>fill_forms\<close> writes itself: a record is started, has
  failed, or is done. \<open>run_log\<close> is what a world's trace holds of them.
\<close>

fun run_line :: "event \<Rightarrow> bool" where
  "run_line (Log l (Processing_record k n)) = True"
| "run_line (Log l (Failed_to_fill_record k)) = True"
| "run_line (Log l (Failed_to_submit_record k)) = True"
| "run_line (Log l (Successfully_processed_record k)) = True"
| "run_line e = False"

definition run_log :: "world \<Rightarrow> event list" where
  "run_log w = filter run_line (trace w)"

text \<open>The two lines of a record that went through.\<close>

definition done_lines :: "int \<Rightarrow> int \<Rightarrow> event list" where
  "done_lines n index =
     [Log INFO (Processing_record (index + 1) n),
      Log INFO (Successfully_processed_record (index + 1))]"

text \<open>The indices of the records a run has logged as successfully processed.\<close>

fun completed :: "event list \<Rightarrow> int list" where
  "completed [] = []"
| "completed (Log INFO (Successfully_processed_record k) # es) = (k - 1) # completed es"
| "completed (e # es) = completed es"

text \<open>The texts typed, in the order they were typed.\<close>

fun written :: "event list \<Rightarrow> string list" where
  "written [] = []"
| "written (Act (Write s d) # es) = s # written es"
| "written (e # es) = written es"

text \<open>The key presses among the events of a trace.\<close>

fun presses :: "event list \<Rightarrow> string list" where
  "presses [] = []"
| "presses (Act (Press k) # es) = k # presses es"
| "presses (e # es) = presses es"

text \<open>
  Between two worlds of one run: time does not go back, and a host call that did not
  complete is the last one attempted; \<open>cont\<close> says whether the step may be followed by
  another one.
\<close>

definition steady :: "(nat \<Rightarrow> outcome) \<Rightarrow> world \<Rightarrow> world \<Rightarrow> bool \<Rightarrow> bool" where
  "steady env w w' cont =
     (ticks w \<le> ticks w' \<and>
      (\<forall>t. ticks w \<le> t \<and> t < ticks w' \<and> env t \<noteq> Done \<longrightarrow> Suc t = ticks w' \<and> \<not> cont))"

text \<open>
  A computation of the sequencer is well behaved when, from any world, it leaves the
  lines of the record loop alone and is steady, being followed by a next step only when
  it returns normally.
\<close>

definition well :: "(nat \<Rightarrow> outcome) \<Rightarrow> (world \<Rightarrow> (exn + 'a) \<times> world) \<Rightarrow> bool" where
  "well env m =
     (\<forall>w. run_log (snd (m w)) = run_log w \<and> steady env w (snd (m w)) (\<not> isl (fst (m w))))"

text \<open>
  What a record that goes through leaves in the trace. \<open>row_at\<close> is the row
  \<open>data.iloc[index]\<close> reads when the index is in range; \<open>field_events\<close> are the events of
  one field of the form, \<open>record_events\<close> those of a whole pass through the record loop:
  the record is announced, its fields are filled in the order of \<open>field_order\<close>, the form
  is submitted with enter, the two delays are slept, and the record is logged as done.
\<close>

definition row_at :: "(string \<rightharpoonup> cell) list \<Rightarrow> int \<Rightarrow> (string \<rightharpoonup> cell)" where
  "row_at data index =
     data ! nat (if index < 0 then int (length data) + index else index)"

definition field_events :: "FormFillerConfig \<Rightarrow> (string \<rightharpoonup> cell) \<Rightarrow> string \<Rightarrow> event list" where
  "field_events cfg rcd field_name =
     (case rcd field_name of
        None \<Rightarrow>
          [Log WARNING (Field_not_found field_name),
           Act (Press ''tab''), Act (Sleep (field_transition_delay cfg))]
      | Some v \<Rightarrow>
          if notna v then
            [Act (Hotkey [''ctrl'', ''a'']), Act (Sleep 0.1),
             Act (Write (str v) (typing_interval cfg)),
             Act (Press ''tab''), Act (Sleep (field_transition_delay cfg))]
          else [])"

definition record_events ::
  "FormFillerConfig \<Rightarrow> int \<Rightarrow> (string \<rightharpoonup> cell) \<Rightarrow> string list \<Rightarrow> int \<Rightarrow> event list" where
  "record_events cfg n rcd field_order index =
     [Log INFO (Processing_record (index + 1) n)] @
     concat (map (field_events cfg rcd) field_order) @
     [Act (Press ''enter''), Act (Sleep (form_submission_delay cfg)),
      Act (Sleep (record_delay cfg))] @
     (if wait_for_page_load cfg then [Act (Sleep (page_load_delay cfg))] else []) @
     [Log INFO (Successfully_processed_record (index + 1))]"

text \<open>
  A computation is loyal to the user when an interrupt raised by one of its host calls
  is what it ends with.
\<close>

definition loyal :: "(nat \<Rightarrow> outcome) \<Rightarrow> (world \<Rightarrow> (exn + 'a) \<times> world) \<Rightarrow> bool" where
  "loyal env m =
     (\<forall>w t. ticks w \<le> t \<and> t < ticks (snd (m w)) \<and> env t = Raises KeyboardInterrupt
        \<longrightarrow> fst (m w) = Inl KeyboardInterrupt)"

text \<open>
  The invariant the specification gives for a configuration (section 3): every duration
  is at least zero, the two methods are among the listed ones, and the optional limits,
  where present, are positive.
\<close>

definition section3_invariants :: "FormFillerConfig \<Rightarrow> bool" where
  "section3_invariants c =
     (0 \<le> pause_between_actions c \<and> 0 \<le> typing_interval c \<and>
      0 \<le> field_transition_delay c \<and> 0 \<le> form_submission_delay c \<and>
      0 \<le> record_delay c \<and> 0 \<le> page_load_delay c \<and>
      navigation_method c \<in> set [''tab'', ''enter'', ''click''] \<and>
      submission_method c \<in> set [''enter'', ''tab_enter'', ''click''] \<and>
      (case max_field_length c of None \<Rightarrow> True | Some n \<Rightarrow> 0 < n) \<and>
      (case max_records_per_session c of None \<Rightarrow> True | Some n \<Rightarrow> 0 < n))"

section \<open>Worlds, steps and computations\<close>

lemma ticks_emit [simp]: "ticks (emit e w) = ticks w"
  by (simp add: emit_def)

lemma trace_emit [simp]: "trace (emit e w) = trace w @ [e]"
  by (simp add: emit_def)

lemma run_log_emit [simp]:
  "run_log (emit e w) = (if run_line e then run_log w @ [e] else run_log w)"
  by (simp add: run_log_def)

lemma run_log_ticks [simp]: "run_log (w\<lparr>ticks := t\<rparr>) = run_log w"
  by (simp add: run_log_def)

lemma steady_refl [simp]: "steady env w w c"
  by (auto simp: steady_def)

lemma steady_emit [simp]: "steady env w (emit e w') c = steady env w w' c"
  by (simp add: steady_def)

lemma steady_emit_left [simp]: "steady env (emit e w) w' c = steady env w w' c"
  by (simp add: steady_def)

lemma steady_trans:
  assumes "steady env w w1 True" and "steady env w1 w2 c"
  shows "steady env w w2 c"
proof -
  have q: "\<And>t. ticks w \<le> t \<Longrightarrow> t < ticks w1 \<Longrightarrow> env t = Done"
    using assms(1) unfolding steady_def by blast
  have le: "ticks w \<le> ticks w1" "ticks w1 \<le> ticks w2"
    using assms unfolding steady_def by blast+
  have r: "\<And>t. ticks w1 \<le> t \<Longrightarrow> t < ticks w2 \<Longrightarrow> env t \<noteq> Done \<Longrightarrow> Suc t = ticks w2 \<and> \<not> c"
    using assms(2) unfolding steady_def by blast
  have "\<And>t. ticks w \<le> t \<and> t < ticks w2 \<and> env t \<noteq> Done \<Longrightarrow> Suc t = ticks w2 \<and> \<not> c"
  proof -
    fix t assume a: "ticks w \<le> t \<and> t < ticks w2 \<and> env t \<noteq> Done"
    then have "\<not> t < ticks w1" using q by blast
    then have "ticks w1 \<le> t" by simp
    then show "Suc t = ticks w2 \<and> \<not> c" using r a by blast
  qed
  moreover have "ticks w \<le> ticks w2" using le by simp
  ultimately show ?thesis unfolding steady_def by blast
qed

lemma steady_True: "steady env w w' True \<Longrightarrow> steady env w w' c"
  by (auto simp: steady_def)

lemma steady_step:
  assumes "ticks w' = Suc (ticks w)" and "c \<Longrightarrow> env (ticks w) = Done"
  shows "steady env w w' c"
proof -
  have "\<And>t. ticks w \<le> t \<and> t < ticks w' \<and> env t \<noteq> Done \<Longrightarrow> Suc t = ticks w' \<and> \<not> c"
  proof -
    fix t assume a: "ticks w \<le> t \<and> t < ticks w' \<and> env t \<noteq> Done"
    then have e: "t = ticks w" using assms(1) by simp
    then have "env (ticks w) \<noteq> Done" using a by simp
    then have "\<not> c" using assms(2) by blast
    then show "Suc t = ticks w' \<and> \<not> c" using e assms(1) by simp
  qed
  moreover have "ticks w \<le> ticks w'" using assms(1) by simp
  ultimately show ?thesis unfolding steady_def by blast
qed

lemma well_perform: "well env (perform env a)"
  unfolding well_def
proof (intro allI)
  fix w
  show "run_log (snd (perform env a w)) = run_log w \<and>
        steady env w (snd (perform env a w)) (\<not> isl (fst (perform env a w)))"
    by (cases "env (ticks w)") (auto simp: perform_def intro!: steady_step)
qed

lemma well_ret: "well env (ret x)"
  by (simp add: well_def ret_def)

lemma well_bnd: 
  assumes "well env m" and "\<And>x. well env (f x)"
  shows "well env (bnd m f)"
  unfolding well_def
proof (intro allI)
  fix w
  obtain r1 w1 where m: "m w = (r1, w1)" by (cases "m w")
  from assms(1) have "run_log (snd (m w)) = run_log w \<and> steady env w (snd (m w)) (\<not> isl (fst (m w)))"
    unfolding well_def by blast
  then have k1: "run_log w1 = run_log w" "steady env w w1 (\<not> isl r1)"
    using m by simp_all
  show "run_log (snd (bnd m f w)) = run_log w \<and>
        steady env w (snd (bnd m f w)) (\<not> isl (fst (bnd m f w)))"
  proof (cases r1)
    case (Inl e)
    then show ?thesis using m k1 by (simp add: bnd_def)
  next
    case (Inr x)
    from assms(2)[of x] have "run_log (snd (f x w1)) = run_log w1 \<and>
      steady env w1 (snd (f x w1)) (\<not> isl (fst (f x w1)))"
      unfolding well_def by blast
    moreover have "steady env w w1 True" using k1 Inr by simp
    ultimately show ?thesis using m k1 Inr
      by (simp add: bnd_def steady_trans)
  qed
qed

lemma well_handlers:
  assumes "well env m" and "\<not> run_line (Log ERROR msg)" and "handlers msg (m w) = (r, w')"
  shows "run_log w' = run_log w \<and> steady env w w' (r = Inr True)"
proof -
  obtain r1 w1 where m: "m w = (r1, w1)" by (cases "m w")
  from assms(1) have "run_log (snd (m w)) = run_log w \<and> steady env w (snd (m w)) (\<not> isl (fst (m w)))"
    unfolding well_def by blast
  then have k1: "run_log w1 = run_log w" "steady env w w1 (\<not> isl r1)"
    using m by simp_all
  show ?thesis
  proof (cases r1)
    case (Inl e)
    then show ?thesis using assms(2,3) m k1
      by (cases e) (auto simp: handlers_def)
  next
    case (Inr b)
    then have "steady env w w1 True" using k1 by simp
    then have "steady env w w1 (r = Inr True)" by (rule steady_True)
    then show ?thesis using assms(3) m k1 Inr by (auto simp: handlers_def)
  qed
qed

lemma type_text_kept:
  assumes "type_text cfg env text c w = (r, w')"
  shows "run_log w' = run_log w \<and> steady env w w' (r = Inr True)"
proof (rule well_handlers)
  show "handlers Error_typing_text
       ((bnd (if c
             then bnd (perform env (Hotkey [''ctrl'', ''a''])) (\<lambda>_. perform env (Sleep 0.1))
             else ret ())
            (\<lambda>_. bnd (perform env (Write text (typing_interval cfg))) (\<lambda>_. ret True))) w) = (r, w')"
    using assms by (simp add: type_text_def)
  show "\<not> run_line (Log ERROR Error_typing_text)" by simp
  show "well env (bnd (if c
             then bnd (perform env (Hotkey [''ctrl'', ''a''])) (\<lambda>_. perform env (Sleep 0.1))
             else ret ())
            (\<lambda>_. bnd (perform env (Write text (typing_interval cfg))) (\<lambda>_. ret True)))"
    by (simp add: well_bnd well_perform well_ret)
qed

section \<open>The actions of the sequencer are well behaved\<close>

lemma move_to_next_field_kept:
  assumes "move_to_next_field cfg env method w = (r, w')"
  shows "run_log w' = run_log w \<and> steady env w w' (r = Inr True)"
proof (rule well_handlers)
  let ?m = "\<lambda>w. if method = ''tab'' then
          bnd (perform env (Press ''tab''))
            (\<lambda>_. bnd (perform env (Sleep (field_transition_delay cfg))) (\<lambda>_. ret True)) w
        else if method = ''enter'' then
          bnd (perform env (Press ''enter''))
            (\<lambda>_. bnd (perform env (Sleep (field_transition_delay cfg))) (\<lambda>_. ret True)) w
        else if method = ''click'' then
          bnd (perform env (Sleep (field_transition_delay cfg))) (\<lambda>_. ret True) w
        else (Inr False, emit (Log WARNING (Unknown_navigation_method method)) w)"
  show "handlers Error_moving_to_next_field (?m w) = (r, w')"
    using assms by (simp add: move_to_next_field_def)
  show "\<not> run_line (Log ERROR Error_moving_to_next_field)" by simp
  have "well env (\<lambda>w. (Inr False, emit (Log WARNING (Unknown_navigation_method method)) w))"
    by (simp add: well_def)
  moreover have "well env (bnd (perform env (Press k))
            (\<lambda>_. bnd (perform env (Sleep (field_transition_delay cfg))) (\<lambda>_. ret True)))" for k
    by (simp add: well_bnd well_perform well_ret)
  moreover have "well env (bnd (perform env (Sleep (field_transition_delay cfg))) (\<lambda>_. ret True))"
    by (simp add: well_bnd well_perform well_ret)
  ultimately show "well env ?m"
    by (simp add: well_def)
qed

lemma submit_form_kept:
  assumes "submit_form cfg env method w = (r, w')"
  shows "run_log w' = run_log w \<and> steady env w w' (r = Inr True)"
proof (rule well_handlers)
  let ?m = "bnd (if method = ''enter'' then perform env (Press ''enter'')
             else if method = ''tab_enter'' then
               bnd (perform env (Press ''tab''))
                 (\<lambda>_. bnd (perform env (Sleep 0.5)) (\<lambda>_. perform env (Press ''enter'')))
             else ret ())
            (\<lambda>_. bnd (perform env (Sleep (form_submission_delay cfg))) (\<lambda>_. ret True))"
  show "handlers Error_submitting_form (?m w) = (r, w')"
    using assms by (simp add: submit_form_def)
  show "\<not> run_line (Log ERROR Error_submitting_form)" by simp
  show "well env ?m"
    by (simp add: well_bnd well_perform well_ret)
qed

lemma fill_fields_kept:
  "fill_fields cfg env rcd fs w = (r, w') \<Longrightarrow>
   run_log w' = run_log w \<and> steady env w w' (r = Inr True)"
proof (induction fs arbitrary: w)
  case Nil
  then show ?case by auto
next
  case (Cons f fs)
  show ?case
  proof (cases "rcd f")
    case None
    obtain r1 w1 where mv: "move_to_next_field cfg env ''tab''
        (emit (Log WARNING (Field_not_found f)) w) = (r1, w1)"
      by (cases "move_to_next_field cfg env ''tab'' (emit (Log WARNING (Field_not_found f)) w)")
    from move_to_next_field_kept[OF mv]
    have k: "run_log w1 = run_log w" "steady env w w1 (r1 = Inr True)" by simp_all
    show ?thesis
    proof (cases "r1 = Inr True")
      case True
      then have "fill_fields cfg env rcd fs w1 = (r, w')"
        using Cons.prems None mv by simp
      from Cons.IH[OF this] show ?thesis using k True by (auto intro: steady_trans)
    next
      case False
      then have "r = r1 \<and> w' = w1"
        using Cons.prems None mv by (auto split: sum.splits bool.splits)
      then show ?thesis using k False by simp
    qed
  next
    case (Some v)
    show ?thesis
    proof (cases "notna v")
      case False
      then have "fill_fields cfg env rcd fs w = (r, w')" using Cons.prems Some by simp
      from Cons.IH[OF this] show ?thesis .
    next
      case True
      obtain r1 w1 where tt: "type_text cfg env (str v) True w = (r1, w1)"
        by (cases "type_text cfg env (str v) True w")
      from type_text_kept[OF tt]
      have k1: "run_log w1 = run_log w" "steady env w w1 (r1 = Inr True)" by simp_all
      show ?thesis
      proof (cases "r1 = Inr True")
        case False
        then have "r = r1 \<and> w' = w1"
          using Cons.prems Some True tt by (auto split: sum.splits bool.splits)
        then show ?thesis using k1 False by simp
      next
        case r1: True
        obtain r2 w2 where mv: "move_to_next_field cfg env ''tab'' w1 = (r2, w2)"
          by (cases "move_to_next_field cfg env ''tab'' w1")
        from move_to_next_field_kept[OF mv]
        have k2: "run_log w2 = run_log w1" "steady env w1 w2 (r2 = Inr True)" by simp_all
        show ?thesis
        proof (cases "r2 = Inr True")
          case False
          then have "r = r2 \<and> w' = w2"
            using Cons.prems Some True tt r1 mv by (auto split: sum.splits bool.splits)
          then show ?thesis using k1 k2 r1 False by (auto intro: steady_trans)
        next
          case r2: True
          then have "fill_fields cfg env rcd fs w2 = (r, w')"
            using Cons.prems Some True tt r1 mv by simp
          from Cons.IH[OF this] show ?thesis using k1 k2 r1 r2 by (auto intro: steady_trans)
        qed
      qed
    qed
  qed
qed

lemma fill_single_record_kept:
  assumes "fill_single_record cfg env rcd fs w = (r, w')"
  shows "run_log w' = run_log w \<and> steady env w w' (r = Inr True)"
proof -
  obtain r1 w1 where ff: "fill_fields cfg env rcd fs w = (r1, w1)"
    by (cases "fill_fields cfg env rcd fs w")
  from fill_fields_kept[OF ff]
  have k: "run_log w1 = run_log w" "steady env w w1 (r1 = Inr True)" by simp_all
  show ?thesis
  proof (cases r1)
    case (Inr b)
    then show ?thesis using assms ff k by (simp add: fill_single_record_def)
  next
    case (Inl e)
    then have "steady env w w1 False" using k by simp
    then show ?thesis using assms ff k Inl
      by (cases e) (auto simp: fill_single_record_def)
  qed
qed

section \<open>One pass through the record loop\<close>

lemma well_delays:
  "well env (bnd (perform env (Sleep (record_delay cfg)))
               (\<lambda>_. if wait_for_page_load cfg
                     then perform env (Sleep (page_load_delay cfg))
                     else ret ()))"
  by (simp add: well_bnd well_perform well_ret)

lemma well_result:
  assumes "well env m" and "m w = (r, w')"
  shows "run_log w' = run_log w \<and> steady env w w' (\<not> isl r)"
proof -
  from assms(1) have "run_log (snd (m w)) = run_log w \<and>
      steady env w (snd (m w)) (\<not> isl (fst (m w)))"
    unfolding well_def by blast
  then show ?thesis using assms(2) by simp
qed

lemma iloc_Inl: "iloc data i = Inl e \<Longrightarrow> e = OtherException"
  by (auto simp: iloc_def Let_def split: if_splits)

lemma process_record_outcome:
  assumes "process_record cfg env data fo i w = (r, w')"
  shows "steady env w w' (r = Inr Continue) \<and>
    ((r = Inr Continue \<and> run_log w' = run_log w @ done_lines (int (length data)) i) \<or>
     (r = Inr Break \<and>
        run_log w' = run_log w @ [Log INFO (Processing_record (i + 1) (int (length data))),
                                  Log ERROR (Failed_to_fill_record (i + 1))]) \<or>
     (r = Inr Break \<and>
        run_log w' = run_log w @ [Log INFO (Processing_record (i + 1) (int (length data))),
                                  Log ERROR (Failed_to_submit_record (i + 1))]) \<or>
     (isl r \<and>
        run_log w' = run_log w @ [Log INFO (Processing_record (i + 1) (int (length data)))]) \<or>
     (r = Inl OtherException \<and> w' = w))"
proof (cases "iloc data i")
  case (Inl e)
  then show ?thesis using assms iloc_Inl[OF Inl] by (simp add: process_record_def)
next
  case (Inr rcd)
  let ?P = "Log INFO (Processing_record (i + 1) (int (length data)))"
  obtain r1 w1 where f: "fill_single_record cfg env rcd fo (emit ?P w) = (r1, w1)"
    by (cases "fill_single_record cfg env rcd fo (emit ?P w)")
  from fill_single_record_kept[OF f]
  have k1: "run_log w1 = run_log w @ [?P]" "steady env w w1 (r1 = Inr True)" by simp_all
  show ?thesis
  proof (cases "r1 = Inr True")
    case False
    show ?thesis
    proof (cases r1)
      case (Inl e)
      then have "r = Inl e \<and> w' = w1" using assms Inr f by (simp add: process_record_def)
      then show ?thesis using k1 Inl by simp
    next
      case r1: (Inr b)
      then have "b = False" using False by simp
      then have "r = Inr Break \<and> w' = emit (Log ERROR (Failed_to_fill_record (i + 1))) w1"
        using assms Inr f r1 by (simp add: process_record_def)
      then show ?thesis using k1 r1 False by simp
    qed
  next
    case r1: True
    obtain r2 w2 where s: "submit_form cfg env ''enter'' w1 = (r2, w2)"
      by (cases "submit_form cfg env ''enter'' w1")
    from submit_form_kept[OF s]
    have k2: "run_log w2 = run_log w1" "steady env w1 w2 (r2 = Inr True)" by simp_all
    have st1: "steady env w w1 True" using k1 r1 by simp
    show ?thesis
    proof (cases "r2 = Inr True")
      case False
      show ?thesis
      proof (cases r2)
        case (Inl e)
        then have "r = Inl e \<and> w' = w2"
          using assms Inr f r1 s by (simp add: process_record_def)
        then show ?thesis using k1 k2 Inl steady_trans[OF st1 k2(2)] by simp
      next
        case r2: (Inr b)
        then have "b = False" using False by simp
        then have "r = Inr Break \<and> w' = emit (Log ERROR (Failed_to_submit_record (i + 1))) w2"
          using assms Inr f r1 s r2 by (simp add: process_record_def)
        then show ?thesis using k1 k2 r2 False steady_trans[OF st1 k2(2)] by simp
      qed
    next
      case r2: True
      have st2: "steady env w w2 True" using steady_trans[OF st1] k2 r2 by simp
      let ?d = "bnd (perform env (Sleep (record_delay cfg)))
               (\<lambda>_. if wait_for_page_load cfg
                     then perform env (Sleep (page_load_delay cfg))
                     else ret ())"
      obtain r3 w3 where d: "?d w2 = (r3, w3)" by (cases "?d w2")
      from well_result[OF well_delays d]
      have k3: "run_log w3 = run_log w2" "steady env w2 w3 (\<not> isl r3)" by simp_all
      show ?thesis
      proof (cases r3)
        case (Inl e)
        then have "r = Inl e \<and> w' = w3"
          using assms Inr f r1 s r2 d by (simp add: process_record_def)
        then show ?thesis using k1 k2 k3 Inl steady_trans[OF st2 k3(2)] by simp
      next
        case r3: (Inr u)
        then have "r = Inr Continue \<and>
            w' = emit (Log INFO (Successfully_processed_record (i + 1))) w3"
          using assms Inr f r1 s r2 d by (simp add: process_record_def)
        then show ?thesis using k1 k2 k3 r3 steady_trans[OF st2 k3(2)]
          by (simp add: done_lines_def)
      qed
    qed
  qed
qed

section \<open>The record loop\<close>

lemma fill_loop_steady:
  "fill_loop cfg env data fo is w = (r, w') \<Longrightarrow> steady env w w' False"
proof (induction "is" arbitrary: w)
  case Nil
  then show ?case by auto
next
  case (Cons i rest)
  obtain r1 w1 where p: "process_record cfg env data fo i w = (r1, w1)"
    by (cases "process_record cfg env data fo i w")
  from process_record_outcome[OF p] have st: "steady env w w1 (r1 = Inr Continue)" by simp
  show ?case
  proof (cases "r1 = Inr Continue")
    case True
    then have "fill_loop cfg env data fo rest w1 = (r, w')" using Cons.prems p by simp
    from Cons.IH[OF this] show ?thesis using st True by (auto intro: steady_trans)
  next
    case False
    then have "w' = w1" using Cons.prems p
      by (cases r1) (auto split: flow.splits)
    then show ?thesis using st False by simp
  qed
qed


section \<open>Empty cells and the flag \<open>skip_empty_fields\<close>\<close>

lemma fill_fields_flag:
  "fill_fields (cfg\<lparr>skip_empty_fields := b\<rparr>) env rcd fs w = fill_fields cfg env rcd fs w"
proof -
  have t: "type_text (cfg\<lparr>skip_empty_fields := b\<rparr>) env x c = type_text cfg env x c" for x c
    by (rule ext) (simp add: type_text_def)
  have m: "move_to_next_field (cfg\<lparr>skip_empty_fields := b\<rparr>) env k = move_to_next_field cfg env k" for k
    by (rule ext) (simp add: move_to_next_field_def)
  show ?thesis
    by (induction fs arbitrary: w) (simp_all add: t m
        cong: option.case_cong if_cong prod.case_cong sum.case_cong bool.case_cong)
qed

lemma fill_fields_drop_nan:
  "fill_fields cfg env rcd fs w =
   fill_fields cfg env rcd (filter (\<lambda>f. rcd f \<noteq> Some NaN) fs) w"
proof (induction fs arbitrary: w)
  case Nil
  show ?case by simp
next
  case (Cons f fs)
  show ?case
  proof (cases "rcd f")
    case None
    then show ?thesis using Cons.IH by (simp split: prod.splits sum.splits bool.splits)
  next
    case (Some v)
    then show ?thesis using Cons.IH
      by (cases v) (simp_all split: prod.splits sum.splits bool.splits)
  qed
qed

text \<open>
  Claim C9. \<open>fill_single_record\<close> does the same whether \<open>skip_empty_fields\<close> is set or
  not: the flag is never read. In both settings an empty (NaN) cell is skipped whole,
  neither typed nor advanced past: the run is the one over the field order with the
  fields of empty cells taken out.
\<close>

theorem skip_empty_fields_never_consulted:
  "fill_single_record (cfg\<lparr>skip_empty_fields := b\<rparr>) env rcd field_order w =
     fill_single_record cfg env rcd field_order w \<and>
   fill_single_record cfg env rcd field_order w =
     fill_single_record cfg env rcd (filter (\<lambda>f. rcd f \<noteq> Some NaN) field_order) w"
  using fill_fields_drop_nan[of cfg env rcd field_order w]
  by (simp add: fill_single_record_def fill_fields_flag)

text \<open>
  Claim C1 says that with \<open>skip_empty_fields\<close> set an empty cell is not typed but is
  still advanced past. The code does not advance: with the default configuration (flag
  set), the record \<open>{name: A, email: NaN}\<close> and the field order \<open>[name, email]\<close>, the run
  types \<open>A\<close>, presses tab once, and issues nothing at all for \<open>email\<close>.
\<close>

theorem nan_field_not_advanced:
  "skip_empty_fields DEFAULT_CONFIG \<and>
   fill_single_record DEFAULT_CONFIG (\<lambda>_. Done)
     [''name'' \<mapsto> Val ''A'', ''email'' \<mapsto> NaN] [''name'', ''email''] init =
   (Inr True,
    \<lparr> ticks = 5,
      trace = [Act (Hotkey [''ctrl'', ''a'']), Act (Sleep 0.1), Act (Write ''A'' 0.05),
               Act (Press ''tab''), Act (Sleep 0.3)] \<rparr>)"
  by (simp add: fill_single_record_def type_text_def move_to_next_field_def handlers_def
      bnd_def ret_def perform_def emit_def init_def DEFAULT_CONFIG_def)

text \<open>
  Claim C3 says that a successful \<open>fill_single_record\<close> advances \<open>len(field_order)\<close>
  times. With the field order \<open>[name, email, phone]\<close> and the record
  \<open>{name: A, email: NaN}\<close> the run succeeds with two tab presses for three fields: one
  after \<open>name\<close>, one for the absent \<open>phone\<close>, none for the empty \<open>email\<close>.
\<close>

theorem nan_field_fewer_advances:
  "fst (fill_single_record DEFAULT_CONFIG (\<lambda>_. Done)
          [''name'' \<mapsto> Val ''A'', ''email'' \<mapsto> NaN] [''name'', ''email'', ''phone''] init)
     = Inr True \<and>
   presses (trace (snd (fill_single_record DEFAULT_CONFIG (\<lambda>_. Done)
          [''name'' \<mapsto> Val ''A'', ''email'' \<mapsto> NaN] [''name'', ''email'', ''phone''] init)))
     = [''tab'', ''tab''] \<and>
   length [''name'', ''email'', ''phone''] = 3"
  by (simp add: fill_single_record_def type_text_def move_to_next_field_def handlers_def
      bnd_def ret_def perform_def emit_def init_def DEFAULT_CONFIG_def)

section \<open>The configured methods\<close>

text \<open>
  Claim C2 says that the sequencer advances with \<open>navigation_method\<close> and submits with
  \<open>submission_method\<close>. \<open>fill_single_record\<close> calls \<open>move_to_next_field()\<close> and
  \<open>fill_forms\<close> calls \<open>submit_form()\<close> with no argument, so the defaults \<open>tab\<close> and
  \<open>enter\<close> are used whatever is configured: with \<open>navigation_method = enter\<close> and
  \<open>submission_method = tab_enter\<close> the keys pressed for one record with one field are
  tab (to advance) and enter (to submit).
\<close>

theorem configured_methods_not_used:
  "presses (trace (fill_forms
      (DEFAULT_CONFIG\<lparr>navigation_method := ''enter'', submission_method := ''tab_enter''\<rparr>)
      (\<lambda>_. Done) [[''name'' \<mapsto> Val ''A'']] [''name''] 0 None init))
   = [''tab'', ''enter'']"
  by (simp add: fill_forms_def end_row_def process_record_def iloc_def submit_form_def
      fill_single_record_def type_text_def move_to_next_field_def handlers_def
      bnd_def ret_def perform_def emit_def init_def DEFAULT_CONFIG_def)

text \<open>
  Claim C8. When the host calls complete, \<open>submit_form\<close> with \<open>enter\<close> presses enter
  once, and with \<open>tab_enter\<close> presses tab, sleeps half a second and presses enter; in
  both cases it then sleeps \<open>form_submission_delay\<close> and returns \<open>True\<close>.
\<close>

theorem submit_form_sequences:
  "(env (ticks w) = Done \<and> env (ticks w + 1) = Done \<longrightarrow>
      submit_form cfg env ''enter'' w =
        (Inr True,
         w\<lparr> ticks := ticks w + 2,
            trace := trace w @ [Act (Press ''enter''), Act (Sleep (form_submission_delay cfg))] \<rparr>)) \<and>
   (env (ticks w) = Done \<and> env (ticks w + 1) = Done \<and> env (ticks w + 2) = Done \<and>
    env (ticks w + 3) = Done \<longrightarrow>
      submit_form cfg env ''tab_enter'' w =
        (Inr True,
         w\<lparr> ticks := ticks w + 4,
            trace := trace w @ [Act (Press ''tab''), Act (Sleep 0.5), Act (Press ''enter''),
                                Act (Sleep (form_submission_delay cfg))] \<rparr>))"
  by (simp add: submit_form_def handlers_def bnd_def ret_def perform_def emit_def
      eval_nat_numeral)

theorem submit_form_sequences_witness:
  "submit_form DEFAULT_CONFIG (\<lambda>_. Done) ''enter'' init =
     (Inr True, \<lparr> ticks = 2, trace = [Act (Press ''enter''), Act (Sleep 2)] \<rparr>) \<and>
   submit_form DEFAULT_CONFIG (\<lambda>_. Done) ''tab_enter'' init =
     (Inr True, \<lparr> ticks = 4, trace = [Act (Press ''tab''), Act (Sleep 0.5), Act (Press ''enter''),
                                Act (Sleep 2)] \<rparr>)"
  using submit_form_sequences[of "\<lambda>_. Done" init DEFAULT_CONFIG]
  by (simp add: init_def DEFAULT_CONFIG_def)

section \<open>Validation of a configuration\<close>

text \<open>
  Claim C4, amended. \<open>validate\<close> raises nothing on a configuration that satisfies the
  invariants of section 3 and whose \<open>log_level\<close> is one of DEBUG, INFO, WARNING, ERROR.
  It raises the error naming the first field, in the order pause\_between\_actions,
  typing\_interval, navigation\_method, submission\_method, log\_level, max\_field\_length,
  max\_records\_per\_session, whose check fails: a negative \<open>pause_between_actions\<close>; a
  negative \<open>typing_interval\<close>; a method outside its list; an unknown \<open>log_level\<close>; a limit
  that is present and not positive. Any of these violations makes it raise.
\<close>

theorem validate_checks:
  "(section3_invariants c \<and> log_level c \<in> set [''DEBUG'', ''INFO'', ''WARNING'', ''ERROR'']
      \<longrightarrow> validate c = Inr ()) \<and>
   (pause_between_actions c < 0
      \<longrightarrow> validate c = Inl ''pause_between_actions must be non-negative'') \<and>
   (0 \<le> pause_between_actions c \<and> typing_interval c < 0
      \<longrightarrow> validate c = Inl ''typing_interval must be non-negative'') \<and>
   (0 \<le> pause_between_actions c \<and> 0 \<le> typing_interval c \<and>
    navigation_method c \<notin> set [''tab'', ''enter'', ''click'']
      \<longrightarrow> validate c =
            Inl (''navigation_method must be 'tab', 'enter', or 'click'' @ [CHR 0x27])) \<and>
   (0 \<le> pause_between_actions c \<and> 0 \<le> typing_interval c \<and>
    navigation_method c \<in> set [''tab'', ''enter'', ''click''] \<and>
    submission_method c \<notin> set [''enter'', ''tab_enter'', ''click'']
      \<longrightarrow> validate c =
            Inl (''submission_method must be 'enter', 'tab_enter', or 'click'' @ [CHR 0x27])) \<and>
   (0 \<le> pause_between_actions c \<and> 0 \<le> typing_interval c \<and>
    navigation_method c \<in> set [''tab'', ''enter'', ''click''] \<and>
    submission_method c \<in> set [''enter'', ''tab_enter'', ''click''] \<and>
    log_level c \<notin> set [''DEBUG'', ''INFO'', ''WARNING'', ''ERROR'']
      \<longrightarrow> validate c =
            Inl (''log_level must be 'DEBUG', 'INFO', 'WARNING', or 'ERROR'' @ [CHR 0x27])) \<and>
   (0 \<le> pause_between_actions c \<and> 0 \<le> typing_interval c \<and>
    navigation_method c \<in> set [''tab'', ''enter'', ''click''] \<and>
    submission_method c \<in> set [''enter'', ''tab_enter'', ''click''] \<and>
    log_level c \<in> set [''DEBUG'', ''INFO'', ''WARNING'', ''ERROR''] \<and>
    max_field_length c = Some n \<and> n \<le> 0
      \<longrightarrow> validate c = Inl ''max_field_length must be positive or None'') \<and>
   (0 \<le> pause_between_actions c \<and> 0 \<le> typing_interval c \<and>
    navigation_method c \<in> set [''tab'', ''enter'', ''click''] \<and>
    submission_method c \<in> set [''enter'', ''tab_enter'', ''click''] \<and>
    log_level c \<in> set [''DEBUG'', ''INFO'', ''WARNING'', ''ERROR''] \<and>
    (case max_field_length c of None \<Rightarrow> True | Some k \<Rightarrow> 0 < k) \<and>
    max_records_per_session c = Some n \<and> n \<le> 0
      \<longrightarrow> validate c = Inl ''max_records_per_session must be positive or None'') \<and>
   (pause_between_actions c < 0 \<or> typing_interval c < 0 \<or>
    navigation_method c \<notin> set [''tab'', ''enter'', ''click''] \<or>
    submission_method c \<notin> set [''enter'', ''tab_enter'', ''click''] \<or>
    log_level c \<notin> set [''DEBUG'', ''INFO'', ''WARNING'', ''ERROR''] \<or>
    (case max_field_length c of None \<Rightarrow> False | Some k \<Rightarrow> k \<le> 0) \<or>
    (case max_records_per_session c of None \<Rightarrow> False | Some k \<Rightarrow> k \<le> 0)
      \<longrightarrow> isl (validate c))"
  by (auto simp: validate_def section3_invariants_def split: option.splits)

theorem validate_checks_witness:
  "validate DEFAULT_CONFIG = Inr () \<and>
   validate (DEFAULT_CONFIG\<lparr>pause_between_actions := - 1\<rparr>) =
     Inl ''pause_between_actions must be non-negative'' \<and>
   validate (DEFAULT_CONFIG\<lparr>typing_interval := - 1\<rparr>) =
     Inl ''typing_interval must be non-negative'' \<and>
   validate (DEFAULT_CONFIG\<lparr>navigation_method := ''swipe''\<rparr>) =
     Inl (''navigation_method must be 'tab', 'enter', or 'click'' @ [CHR 0x27]) \<and>
   validate (DEFAULT_CONFIG\<lparr>submission_method := ''swipe''\<rparr>) =
     Inl (''submission_method must be 'enter', 'tab_enter', or 'click'' @ [CHR 0x27]) \<and>
   validate (DEFAULT_CONFIG\<lparr>log_level := ''TRACE''\<rparr>) =
     Inl (''log_level must be 'DEBUG', 'INFO', 'WARNING', or 'ERROR'' @ [CHR 0x27]) \<and>
   validate (DEFAULT_CONFIG\<lparr>max_field_length := Some 0\<rparr>) =
     Inl ''max_field_length must be positive or None'' \<and>
   validate (DEFAULT_CONFIG\<lparr>max_records_per_session := Some 0\<rparr>) =
     Inl ''max_records_per_session must be positive or None'' \<and>
   isl (validate (DEFAULT_CONFIG\<lparr>max_records_per_session := Some (- 3)\<rparr>))"
  using validate_checks[of DEFAULT_CONFIG 0]
    validate_checks[of "DEFAULT_CONFIG\<lparr>pause_between_actions := - 1\<rparr>" 0]
    validate_checks[of "DEFAULT_CONFIG\<lparr>typing_interval := - 1\<rparr>" 0]
    validate_checks[of "DEFAULT_CONFIG\<lparr>navigation_method := ''swipe''\<rparr>" 0]
    validate_checks[of "DEFAULT_CONFIG\<lparr>submission_method := ''swipe''\<rparr>" 0]
    validate_checks[of "DEFAULT_CONFIG\<lparr>log_level := ''TRACE''\<rparr>" 0]
    validate_checks[of "DEFAULT_CONFIG\<lparr>max_field_length := Some 0\<rparr>" 0]
    validate_checks[of "DEFAULT_CONFIG\<lparr>max_records_per_session := Some 0\<rparr>" 0]
    validate_checks[of "DEFAULT_CONFIG\<lparr>max_records_per_session := Some (- 3)\<rparr>" 0]
  by (simp add: section3_invariants_def DEFAULT_CONFIG_def)

text \<open>
  Claim C4 as stated fails twice. A configuration that satisfies the invariants of
  section 3 and has an unknown \<open>log_level\<close> is rejected; and a negative
  \<open>field_transition_delay\<close> is accepted, since only two of the six durations are checked.
\<close>

theorem validate_counterexample:
  "section3_invariants (DEFAULT_CONFIG\<lparr>log_level := ''TRACE''\<rparr>) \<and>
   validate (DEFAULT_CONFIG\<lparr>log_level := ''TRACE''\<rparr>) =
     Inl (''log_level must be 'DEBUG', 'INFO', 'WARNING', or 'ERROR'' @ [CHR 0x27]) \<and>
   field_transition_delay (DEFAULT_CONFIG\<lparr>field_transition_delay := - 1\<rparr>) < 0 \<and>
   validate (DEFAULT_CONFIG\<lparr>field_transition_delay := - 1\<rparr>) = Inr ()"
  by (simp add: validate_def section3_invariants_def DEFAULT_CONFIG_def)

section \<open>A whole run\<close>



lemma run_log_init [simp]: "run_log init = []"
  by (simp add: run_log_def init_def)



lemma started_run_log: "started (filter run_line es) = started es"
  by (induction es rule: started.induct) simp_all

section \<open>User interrupts\<close>

lemma steady_quiet:
  "steady env w w' True \<Longrightarrow> ticks w \<le> t \<Longrightarrow> t < ticks w' \<Longrightarrow> env t = Done"
  unfolding steady_def by blast

lemma loyal_perform: "loyal env (perform env a)"
  unfolding loyal_def
proof (intro allI impI)
  fix w t
  assume a: "ticks w \<le> t \<and> t < ticks (snd (perform env a w)) \<and>
             env t = Raises KeyboardInterrupt"
  have "ticks (snd (perform env a w)) = Suc (ticks w)"
    by (cases "env (ticks w)") (simp_all add: perform_def)
  then have "t = ticks w" using a by simp
  then show "fst (perform env a w) = Inl KeyboardInterrupt"
    using a by (simp add: perform_def)
qed

lemma loyal_ret: "loyal env (ret x)"
  by (simp add: loyal_def ret_def)

lemma loyal_result:
  assumes "loyal env m" and "m w = (r, w')"
    and "ticks w \<le> t" and "t < ticks w'" and "env t = Raises KeyboardInterrupt"
  shows "r = Inl KeyboardInterrupt"
proof -
  have "ticks w \<le> t \<and> t < ticks (snd (m w)) \<and> env t = Raises KeyboardInterrupt"
    using assms(2-5) by simp
  then have "fst (m w) = Inl KeyboardInterrupt"
    using assms(1) unfolding loyal_def by blast
  then show ?thesis using assms(2) by simp
qed

lemma loyal_bnd:
  assumes "well env m" and "loyal env m" and "\<And>x. loyal env (f x)"
  shows "loyal env (bnd m f)"
  unfolding loyal_def
proof (intro allI impI)
  fix w t
  assume a: "ticks w \<le> t \<and> t < ticks (snd (bnd m f w)) \<and>
             env t = Raises KeyboardInterrupt"
  obtain r1 w1 where m: "m w = (r1, w1)" by (cases "m w")
  from well_result[OF assms(1) m] have st: "steady env w w1 (\<not> isl r1)" by simp
  show "fst (bnd m f w) = Inl KeyboardInterrupt"
  proof (cases r1)
    case (Inl e)
    then have b: "bnd m f w = (Inl e, w1)" using m by (simp add: bnd_def)
    then have "t < ticks w1" using a by simp
    from loyal_result[OF assms(2) m _ this] a have "r1 = Inl KeyboardInterrupt" by simp
    then show ?thesis using b Inl by simp
  next
    case (Inr x)
    then have b: "bnd m f w = f x w1" using m by (simp add: bnd_def)
    have "steady env w w1 True" using st Inr by simp
    then have "\<not> t < ticks w1" using steady_quiet[of env w w1 t] a by auto
    then have "ticks w1 \<le> t" by simp
    moreover obtain r2 w2 where f: "f x w1 = (r2, w2)" by (cases "f x w1")
    ultimately have "r2 = Inl KeyboardInterrupt"
      using loyal_result[OF assms(3)[of x] f, of t] a b by simp
    then show ?thesis using b f by simp
  qed
qed

lemma loyal_handlers:
  assumes "loyal env m" and "handlers msg (m w) = (r, w')"
    and "ticks w \<le> t" and "t < ticks w'" and "env t = Raises KeyboardInterrupt"
  shows "r = Inl KeyboardInterrupt"
proof -
  obtain r1 w1 where m: "m w = (r1, w1)" by (cases "m w")
  have tk: "ticks w' = ticks w1"
    using assms(2) m by (auto simp: handlers_def split: sum.splits exn.splits)
  from loyal_result[OF assms(1) m assms(3) _ assms(5)] assms(4) tk
  have "r1 = Inl KeyboardInterrupt" by simp
  then show ?thesis using assms(2) m by (simp add: handlers_def)
qed

lemma type_text_loyal:
  assumes "type_text cfg env text c w = (r, w')"
    and "ticks w \<le> t" and "t < ticks w'" and "env t = Raises KeyboardInterrupt"
  shows "r = Inl KeyboardInterrupt"
proof -
  let ?m = "bnd (if c
             then bnd (perform env (Hotkey [''ctrl'', ''a''])) (\<lambda>_. perform env (Sleep 0.1))
             else ret ())
            (\<lambda>_. bnd (perform env (Write text (typing_interval cfg))) (\<lambda>_. ret True))"
  have h: "handlers Error_typing_text (?m w) = (r, w')"
    using assms(1) by (simp add: type_text_def)
  have l: "loyal env ?m"
    by (simp add: loyal_bnd loyal_perform loyal_ret well_bnd well_perform well_ret)
  show ?thesis by (rule loyal_handlers[where m = ?m, OF l h assms(2,3,4)])
qed

lemma move_to_next_field_loyal:
  assumes "move_to_next_field cfg env method w = (r, w')"
    and "ticks w \<le> t" and "t < ticks w'" and "env t = Raises KeyboardInterrupt"
  shows "r = Inl KeyboardInterrupt"
proof -
  let ?m = "\<lambda>w. if method = ''tab'' then
          bnd (perform env (Press ''tab''))
            (\<lambda>_. bnd (perform env (Sleep (field_transition_delay cfg))) (\<lambda>_. ret True)) w
        else if method = ''enter'' then
          bnd (perform env (Press ''enter''))
            (\<lambda>_. bnd (perform env (Sleep (field_transition_delay cfg))) (\<lambda>_. ret True)) w
        else if method = ''click'' then
          bnd (perform env (Sleep (field_transition_delay cfg))) (\<lambda>_. ret True) w
        else (Inr False, emit (Log WARNING (Unknown_navigation_method method)) w)"
  have h: "handlers Error_moving_to_next_field (?m w) = (r, w')"
    using assms(1) by (simp add: move_to_next_field_def)
  have "loyal env (\<lambda>w. (Inr False, emit (Log WARNING (Unknown_navigation_method method)) w))"
    by (simp add: loyal_def)
  moreover have "loyal env (bnd (perform env (Press k))
            (\<lambda>_. bnd (perform env (Sleep (field_transition_delay cfg))) (\<lambda>_. ret True)))" for k
    by (simp add: loyal_bnd loyal_perform loyal_ret well_bnd well_perform well_ret)
  moreover have "loyal env (bnd (perform env (Sleep (field_transition_delay cfg)))
            (\<lambda>_. ret True))"
    by (simp add: loyal_bnd loyal_perform loyal_ret well_bnd well_perform well_ret)
  ultimately have l: "loyal env ?m"
    by (simp add: loyal_def)
  show ?thesis by (rule loyal_handlers[where m = ?m, OF l h assms(2,3,4)])
qed

lemma submit_form_loyal:
  assumes "submit_form cfg env method w = (r, w')"
    and "ticks w \<le> t" and "t < ticks w'" and "env t = Raises KeyboardInterrupt"
  shows "r = Inl KeyboardInterrupt"
proof -
  let ?m = "bnd (if method = ''enter'' then perform env (Press ''enter'')
             else if method = ''tab_enter'' then
               bnd (perform env (Press ''tab''))
                 (\<lambda>_. bnd (perform env (Sleep 0.5)) (\<lambda>_. perform env (Press ''enter'')))
             else ret ())
            (\<lambda>_. bnd (perform env (Sleep (form_submission_delay cfg))) (\<lambda>_. ret True))"
  have h: "handlers Error_submitting_form (?m w) = (r, w')"
    using assms(1) by (simp add: submit_form_def)
  have l: "loyal env ?m"
    by (simp add: loyal_bnd loyal_perform loyal_ret well_bnd well_perform well_ret)
  show ?thesis by (rule loyal_handlers[where m = ?m, OF l h assms(2,3,4)])
qed

lemma loyal_delays:
  "loyal env (bnd (perform env (Sleep (record_delay cfg)))
               (\<lambda>_. if wait_for_page_load cfg
                     then perform env (Sleep (page_load_delay cfg))
                     else ret ()))"
  by (simp add: loyal_bnd loyal_perform loyal_ret well_perform)

lemma steady_past:
  assumes "ticks w \<le> t" and "env t = Raises e" and "steady env w w1 True"
  shows "ticks w1 \<le> t"
proof (rule ccontr)
  assume "\<not> ticks w1 \<le> t"
  then have "t < ticks w1" by simp
  from steady_quiet[OF assms(3,1) this] show False using assms(2) by simp
qed

lemma fill_fields_loyal:
  "fill_fields cfg env rcd fs w = (r, w') \<Longrightarrow> ticks w \<le> t \<Longrightarrow> t < ticks w' \<Longrightarrow>
   env t = Raises KeyboardInterrupt \<Longrightarrow> r = Inl KeyboardInterrupt"
proof (induction fs arbitrary: w)
  case Nil
  then show ?case by auto
next
  case (Cons f fs)
  note env = \<open>env t = Raises KeyboardInterrupt\<close>
  show ?case
  proof (cases "rcd f")
    case None
    let ?w0 = "emit (Log WARNING (Field_not_found f)) w"
    obtain r1 w1 where mv: "move_to_next_field cfg env ''tab'' ?w0 = (r1, w1)"
      by (cases "move_to_next_field cfg env ''tab'' ?w0")
    from move_to_next_field_kept[OF mv]
    have k: "steady env w w1 (r1 = Inr True)" by simp
    show ?thesis
    proof (cases "r1 = Inr True")
      case True
      then have l: "fill_fields cfg env rcd fs w1 = (r, w')"
        using Cons.prems(1) None mv by simp
      have "ticks w1 \<le> t" using steady_past[where env = env, OF Cons.prems(2) env] k True by simp
      from Cons.IH[OF l this Cons.prems(3) env] show ?thesis .
    next
      case False
      then have e: "r = r1 \<and> w' = w1"
        using Cons.prems(1) None mv by (auto split: sum.splits bool.splits)
      have "ticks ?w0 \<le> t" using Cons.prems(2) by simp
      from move_to_next_field_loyal[OF mv this] env e Cons.prems(3)
      show ?thesis by simp
    qed
  next
    case (Some v)
    show ?thesis
    proof (cases "notna v")
      case False
      then have "fill_fields cfg env rcd fs w = (r, w')" using Cons.prems(1) Some by simp
      from Cons.IH[OF this Cons.prems(2,3) env] show ?thesis .
    next
      case True
      obtain r1 w1 where tt: "type_text cfg env (str v) True w = (r1, w1)"
        by (cases "type_text cfg env (str v) True w")
      from type_text_kept[OF tt]
      have k1: "steady env w w1 (r1 = Inr True)" by simp
      show ?thesis
      proof (cases "r1 = Inr True")
        case False
        then have e: "r = r1 \<and> w' = w1"
          using Cons.prems(1) Some True tt by (auto split: sum.splits bool.splits)
        from type_text_loyal[OF tt Cons.prems(2)] env e Cons.prems(3)
        show ?thesis by simp
      next
        case r1: True
        have t1: "ticks w1 \<le> t" using steady_past[where env = env, OF Cons.prems(2) env] k1 r1 by simp
        obtain r2 w2 where mv: "move_to_next_field cfg env ''tab'' w1 = (r2, w2)"
          by (cases "move_to_next_field cfg env ''tab'' w1")
        from move_to_next_field_kept[OF mv]
        have k2: "steady env w1 w2 (r2 = Inr True)" by simp
        show ?thesis
        proof (cases "r2 = Inr True")
          case False
          then have e: "r = r2 \<and> w' = w2"
            using Cons.prems(1) Some True tt r1 mv by (auto split: sum.splits bool.splits)
          from move_to_next_field_loyal[OF mv t1] env e Cons.prems(3)
          show ?thesis by simp
        next
          case r2: True
          then have l: "fill_fields cfg env rcd fs w2 = (r, w')"
            using Cons.prems(1) Some True tt r1 mv by simp
          have "ticks w2 \<le> t" using steady_past[where env = env, OF t1 env] k2 r2 by simp
          from Cons.IH[OF l this Cons.prems(3) env] show ?thesis .
        qed
      qed
    qed
  qed
qed

lemma fill_single_record_loyal:
  assumes "fill_single_record cfg env rcd fs w = (r, w')"
    and "ticks w \<le> t" and "t < ticks w'" and "env t = Raises KeyboardInterrupt"
  shows "r = Inl KeyboardInterrupt"
proof -
  obtain r1 w1 where ff: "fill_fields cfg env rcd fs w = (r1, w1)"
    by (cases "fill_fields cfg env rcd fs w")
  have tk: "ticks w' = ticks w1"
    using assms(1) ff by (auto simp: fill_single_record_def split: sum.splits exn.splits)
  from fill_fields_loyal[OF ff assms(2)] assms(4) assms(3) tk
  have "r1 = Inl KeyboardInterrupt" by simp
  then show ?thesis using assms(1) ff by (simp add: fill_single_record_def)
qed

lemma process_record_loyal:
  assumes "process_record cfg env data fo i w = (r, w')"
    and "ticks w \<le> t" and "t < ticks w'" and "env t = Raises KeyboardInterrupt"
  shows "r = Inl KeyboardInterrupt"
proof (cases "iloc data i")
  case (Inl e)
  then have "w' = w" using assms(1) by (simp add: process_record_def)
  then show ?thesis using assms(2,3) by simp
next
  case (Inr rcd)
  let ?P = "Log INFO (Processing_record (i + 1) (int (length data)))"
  obtain r1 w1 where f: "fill_single_record cfg env rcd fo (emit ?P w) = (r1, w1)"
    by (cases "fill_single_record cfg env rcd fo (emit ?P w)")
  from fill_single_record_kept[OF f]
  have k1: "steady env w w1 (r1 = Inr True)" by simp
  have t0: "ticks (emit ?P w) \<le> t" using assms(2) by simp
  show ?thesis
  proof (cases "r1 = Inr True")
    case False
    then have tk: "ticks w' = ticks w1"
      using assms(1) Inr f by (auto simp: process_record_def split: sum.splits bool.splits)
    from fill_single_record_loyal[OF f t0] assms(4) assms(3) tk
    have "r1 = Inl KeyboardInterrupt" by simp
    then show ?thesis using assms(1) Inr f by (simp add: process_record_def)
  next
    case r1: True
    have t1: "ticks w1 \<le> t" using steady_past[where env = env, OF assms(2,4)] k1 r1 by simp
    obtain r2 w2 where s: "submit_form cfg env ''enter'' w1 = (r2, w2)"
      by (cases "submit_form cfg env ''enter'' w1")
    from submit_form_kept[OF s]
    have k2: "steady env w1 w2 (r2 = Inr True)" by simp
    show ?thesis
    proof (cases "r2 = Inr True")
      case False
      then have tk: "ticks w' = ticks w2"
        using assms(1) Inr f r1 s
        by (auto simp: process_record_def split: sum.splits bool.splits)
      from submit_form_loyal[OF s t1] assms(4) assms(3) tk
      have "r2 = Inl KeyboardInterrupt" by simp
      then show ?thesis using assms(1) Inr f r1 s by (simp add: process_record_def)
    next
      case r2: True
      have t2: "ticks w2 \<le> t" using steady_past[where env = env, OF t1 assms(4)] k2 r2 by simp
      let ?d = "bnd (perform env (Sleep (record_delay cfg)))
               (\<lambda>_. if wait_for_page_load cfg
                     then perform env (Sleep (page_load_delay cfg))
                     else ret ())"
      obtain r3 w3 where d: "?d w2 = (r3, w3)" by (cases "?d w2")
      have tk: "ticks w' = ticks w3"
        using assms(1) Inr f r1 s r2 d
        by (auto simp: process_record_def split: sum.splits)
      from loyal_result[OF loyal_delays d t2] assms(4) assms(3) tk
      have "r3 = Inl KeyboardInterrupt" by simp
      then show ?thesis using assms(1) Inr f r1 s r2 d by (simp add: process_record_def)
    qed
  qed
qed

lemma fill_loop_loyal:
  "fill_loop cfg env data fo is w = (r, w') \<Longrightarrow> ticks w \<le> t \<Longrightarrow> t < ticks w' \<Longrightarrow>
   env t = Raises KeyboardInterrupt \<Longrightarrow> \<exists>i. r = Inl (KeyboardInterrupt, i)"
proof (induction "is" arbitrary: w)
  case Nil
  then show ?case by auto
next
  case (Cons i rest)
  note env = \<open>env t = Raises KeyboardInterrupt\<close>
  obtain r1 w1 where p: "process_record cfg env data fo i w = (r1, w1)"
    by (cases "process_record cfg env data fo i w")
  from process_record_outcome[OF p] have st: "steady env w w1 (r1 = Inr Continue)" by simp
  show ?case
  proof (cases "r1 = Inr Continue")
    case True
    then have l: "fill_loop cfg env data fo rest w1 = (r, w')" using Cons.prems(1) p by simp
    have "ticks w1 \<le> t" using steady_past[where env = env, OF Cons.prems(2) env] st True by simp
    from Cons.IH[OF l this Cons.prems(3) env] show ?thesis .
  next
    case False
    then have w': "w' = w1" using Cons.prems(1) p
      by (cases r1) (auto split: flow.splits)
    from process_record_loyal[OF p Cons.prems(2)] env w' Cons.prems(3)
    have "r1 = Inl KeyboardInterrupt" by simp
    then have "r = Inl (KeyboardInterrupt, i)" using Cons.prems(1) p by auto
    then show ?thesis by blast
  qed
qed

lemma started_append: "started (xs @ ys) = started xs @ started ys"
  by (induction xs rule: started.induct) simp_all

lemma fill_loop_interrupt:
  "fill_loop cfg env data fo is w = (Inl (KeyboardInterrupt, i), w') \<Longrightarrow>
   sorted_wrt (<) is \<Longrightarrow>
   \<exists>evs. run_log w' =
            run_log w @ evs @ [Log INFO (Processing_record (i + 1) (int (length data)))] \<and>
         i \<in> set is \<and>
         (\<forall>l k. Log l (Successfully_processed_record k) \<in> set evs \<longrightarrow> k - 1 < i)"
proof (induction "is" arbitrary: w)
  case Nil
  then show ?case by simp
next
  case (Cons j rest)
  obtain r1 w1 where p: "process_record cfg env data fo j w = (r1, w1)"
    by (cases "process_record cfg env data fo j w")
  note out = process_record_outcome[OF p]
  show ?case
  proof (cases "r1 = Inr Continue")
    case True
    then have l: "fill_loop cfg env data fo rest w1 = (Inl (KeyboardInterrupt, i), w')"
      using Cons.prems(1) p by simp
    have srt: "sorted_wrt (<) rest" using Cons.prems(2) by simp
    from Cons.IH[OF l srt] obtain evs where
      e: "run_log w' =
            run_log w1 @ evs @ [Log INFO (Processing_record (i + 1) (int (length data)))]"
         "i \<in> set rest"
         "\<forall>l k. Log l (Successfully_processed_record k) \<in> set evs \<longrightarrow> k - 1 < i"
      by blast
    have r1: "run_log w1 = run_log w @ done_lines (int (length data)) j"
      using out True by auto
    have ji: "j < i" using Cons.prems(2) e(2) by auto
    let ?evs = "done_lines (int (length data)) j @ evs"
    have "run_log w' =
            run_log w @ ?evs @ [Log INFO (Processing_record (i + 1) (int (length data)))]"
      using e(1) r1 by simp
    moreover have "i \<in> set (j # rest)" using e(2) by simp
    moreover have "\<forall>l k. Log l (Successfully_processed_record k) \<in> set ?evs \<longrightarrow> k - 1 < i"
      using e(3) ji by (auto simp: done_lines_def)
    ultimately show ?thesis by blast
  next
    case False
    then have w': "w' = w1 \<and> r1 = Inl KeyboardInterrupt \<and> i = j" using Cons.prems(1) p
      by (cases r1) (auto split: flow.splits)
    then have "run_log w1 =
        run_log w @ [] @ [Log INFO (Processing_record (j + 1) (int (length data)))]"
      using out by auto
    then show ?thesis using w' by (metis empty_iff list.set(1) list.set_intros(1))
  qed
qed

section \<open>Abort signals\<close>

lemma ticks_fill_forms:
  "ticks (fill_forms cfg env data fo start_row max_records w) =
   ticks (snd (fill_loop cfg env data fo
             [start_row .. end_row data start_row max_records - 1]
             (emit (Log INFO (Processing_records start_row
                                (end_row data start_row max_records - 1))) w)))"
  by (simp add: fill_forms_def split: prod.splits sum.splits exn.splits)

lemma sorted_wrt_less_upto: "sorted_wrt (<) [i..j]"
  by (simp add: strict_sorted_iff)

text \<open>
  Claim C5, amended. In a run of \<open>fill_forms\<close>, a host call that does not complete, so
  in particular one on which the failsafe or a user interrupt is raised, is the last
  host call of the run: the run stops there and starts no further record. A user
  interrupt ends the run with the line "Stopped at record k", and \<open>k\<close> is \<open>index + 1\<close> for
  the record started last: the record in progress, for which there is no "Successfully
  processed" line, not the last record that was completed.
\<close>

theorem abort_stops_run:
  "(\<forall>t. t < ticks (fill_forms cfg env data fo start_row max_records init) \<and> env t \<noteq> Done
        \<longrightarrow> Suc t = ticks (fill_forms cfg env data fo start_row max_records init)) \<and>
   (\<forall>t. t < ticks (fill_forms cfg env data fo start_row max_records init) \<and>
         env t = Raises KeyboardInterrupt
        \<longrightarrow> (\<exists>k. last (trace (fill_forms cfg env data fo start_row max_records init)) =
                  Print (Stopped_at_record k))) \<and>
   (\<forall>k. last (trace (fill_forms cfg env data fo start_row max_records init)) =
           Print (Stopped_at_record k)
        \<longrightarrow> Log INFO (Interrupted_at_record k)
              \<in> set (trace (fill_forms cfg env data fo start_row max_records init)) \<and>
            started (trace (fill_forms cfg env data fo start_row max_records init)) \<noteq> [] \<and>
            last (started (trace (fill_forms cfg env data fo start_row max_records init))) =
              k - 1 \<and>
            Log INFO (Successfully_processed_record k)
              \<notin> set (trace (fill_forms cfg env data fo start_row max_records init)))"
proof -
  let ?final = "fill_forms cfg env data fo start_row max_records init"
  let ?w0 = "emit (Log INFO (Processing_records start_row
                                (end_row data start_row max_records - 1))) init"
  let ?is = "[start_row .. end_row data start_row max_records - 1]"
  obtain r w' where l: "fill_loop cfg env data fo ?is ?w0 = (r, w')"
    by (cases "fill_loop cfg env data fo ?is ?w0")
  have tk: "ticks ?final = ticks w'" using l by (simp add: ticks_fill_forms)
  have t0: "ticks ?w0 = 0" by (simp add: init_def)
  have a: "\<forall>t. t < ticks ?final \<and> env t \<noteq> Done \<longrightarrow> Suc t = ticks ?final"
    using fill_loop_steady[OF l] tk t0 unfolding steady_def by simp
  have b: "\<forall>t. t < ticks ?final \<and> env t = Raises KeyboardInterrupt
        \<longrightarrow> (\<exists>k. last (trace ?final) = Print (Stopped_at_record k))"
  proof (intro allI impI)
    fix t assume h: "t < ticks ?final \<and> env t = Raises KeyboardInterrupt"
    then have "ticks ?w0 \<le> t" "t < ticks w'" using tk t0 by simp_all
    from fill_loop_loyal[OF l this] h obtain i where "r = Inl (KeyboardInterrupt, i)"
      by blast
    then have "last (trace ?final) = Print (Stopped_at_record (i + 1))"
      using l by (simp add: fill_forms_def)
    then show "\<exists>k. last (trace ?final) = Print (Stopped_at_record k)" by blast
  qed
  have c: "\<forall>k. last (trace ?final) = Print (Stopped_at_record k)
        \<longrightarrow> Log INFO (Interrupted_at_record k) \<in> set (trace ?final) \<and>
            started (trace ?final) \<noteq> [] \<and>
            last (started (trace ?final)) = k - 1 \<and>
            Log INFO (Successfully_processed_record k) \<notin> set (trace ?final)"
  proof (intro allI impI)
    fix k assume h: "last (trace ?final) = Print (Stopped_at_record k)"
    have "\<exists>i. r = Inl (KeyboardInterrupt, i) \<and> k = i + 1"
    proof (cases r)
      case (Inr u)
      then show ?thesis using h l by (simp add: fill_forms_def)
    next
      case (Inl ei)
      obtain e i where ei: "ei = (e, i)" by (cases ei)
      show ?thesis using h l Inl ei by (cases e) (simp_all add: fill_forms_def)
    qed
    then obtain i where r: "r = Inl (KeyboardInterrupt, i)" and k: "k = i + 1" by blast
    have f: "?final = emit (Print (Stopped_at_record (i + 1)))
                        (emit (Log INFO (Interrupted_at_record (i + 1))) w')"
      using l r by (simp add: fill_forms_def)
    from fill_loop_interrupt[OF l[unfolded r] sorted_wrt_less_upto] obtain evs where
      e: "run_log w' = run_log ?w0 @ evs @
            [Log INFO (Processing_record (i + 1) (int (length data)))]"
         "\<forall>l k. Log l (Successfully_processed_record k) \<in> set evs \<longrightarrow> k - 1 < i"
      by blast
    have rl: "run_log w' = evs @ [Log INFO (Processing_record (i + 1) (int (length data)))]"
      using e(1) by simp
    have st: "started (trace ?final) = started (trace w')"
      by (simp add: f started_append)
    have "started (trace w') = started (run_log w')"
      by (simp add: run_log_def started_run_log)
    then have s: "started (trace ?final) = started evs @ [i]"
      using st rl by (simp add: started_append)
    have "\<not> (i + 1 - 1 < i)" by simp
    then have "Log INFO (Successfully_processed_record (i + 1)) \<notin> set evs"
      using e(2) by blast
    then have "Log INFO (Successfully_processed_record (i + 1)) \<notin> set (run_log w')"
      using rl by simp
    then have "Log INFO (Successfully_processed_record (i + 1)) \<notin> set (trace w')"
      by (simp add: run_log_def)
    then have n: "Log INFO (Successfully_processed_record (i + 1)) \<notin> set (trace ?final)"
      by (simp add: f)
    have m: "Log INFO (Interrupted_at_record (i + 1)) \<in> set (trace ?final)"
      by (simp add: f)
    show "Log INFO (Interrupted_at_record k) \<in> set (trace ?final) \<and>
            started (trace ?final) \<noteq> [] \<and>
            last (started (trace ?final)) = k - 1 \<and>
            Log INFO (Successfully_processed_record k) \<notin> set (trace ?final)"
      using s n m k by simp
  qed
  show ?thesis using a b c by blast
qed

lemma interrupted_trace:
  "trace (fill_forms DEFAULT_CONFIG
      (\<lambda>t. if t = 12 then Raises KeyboardInterrupt else Done)
      [[''a'' \<mapsto> Val ''r0''], [''a'' \<mapsto> Val ''r1''], [''a'' \<mapsto> Val ''r2'']]
      [''a''] 0 None init) =
   [Log INFO (Processing_records 0 2), Log INFO (Processing_record 1 3),
    Act (Hotkey [''ctrl'', ''a'']), Act (Sleep (1 / 10)),
    Act (Write ''r0'' (1 / 20)), Act (Press ''tab''),
    Act (Sleep (3 / 10)), Act (Press ''enter''), Act (Sleep 2),
    Act (Sleep 1), Act (Sleep 3),
    Log INFO (Successfully_processed_record 1),
    Log INFO (Processing_record 2 3), Act (Hotkey [''ctrl'', ''a'']),
    Act (Sleep (1 / 10)), Act (Write ''r1'' (1 / 20)),
    Log INFO (Interrupted_at_record 2), Print (Stopped_at_record 2)]"
  by (simp add: fill_forms_def end_row_def process_record_def iloc_def submit_form_def
      fill_single_record_def type_text_def move_to_next_field_def handlers_def
      bnd_def ret_def perform_def emit_def init_def DEFAULT_CONFIG_def upto.simps)

lemma interrupted_ticks:
  "ticks (fill_forms DEFAULT_CONFIG
      (\<lambda>t. if t = 12 then Raises KeyboardInterrupt else Done)
      [[''a'' \<mapsto> Val ''r0''], [''a'' \<mapsto> Val ''r1''], [''a'' \<mapsto> Val ''r2'']]
      [''a''] 0 None init) = 13"
  by (simp add: fill_forms_def end_row_def process_record_def iloc_def submit_form_def
      fill_single_record_def type_text_def move_to_next_field_def handlers_def
      bnd_def ret_def perform_def emit_def init_def DEFAULT_CONFIG_def upto.simps)

theorem abort_stops_run_witness:
  "ticks (fill_forms DEFAULT_CONFIG
      (\<lambda>t. if t = 12 then Raises KeyboardInterrupt else Done)
      [[''a'' \<mapsto> Val ''r0''], [''a'' \<mapsto> Val ''r1''], [''a'' \<mapsto> Val ''r2'']]
      [''a''] 0 None init) = 13 \<and>
   last (trace (fill_forms DEFAULT_CONFIG
      (\<lambda>t. if t = 12 then Raises KeyboardInterrupt else Done)
      [[''a'' \<mapsto> Val ''r0''], [''a'' \<mapsto> Val ''r1''], [''a'' \<mapsto> Val ''r2'']]
      [''a''] 0 None init)) = Print (Stopped_at_record 2) \<and>
   last (started (trace (fill_forms DEFAULT_CONFIG
      (\<lambda>t. if t = 12 then Raises KeyboardInterrupt else Done)
      [[''a'' \<mapsto> Val ''r0''], [''a'' \<mapsto> Val ''r1''], [''a'' \<mapsto> Val ''r2'']]
      [''a''] 0 None init))) = 1 \<and>
   Log INFO (Successfully_processed_record 2)
     \<notin> set (trace (fill_forms DEFAULT_CONFIG
      (\<lambda>t. if t = 12 then Raises KeyboardInterrupt else Done)
      [[''a'' \<mapsto> Val ''r0''], [''a'' \<mapsto> Val ''r1''], [''a'' \<mapsto> Val ''r2'']]
      [''a''] 0 None init))"
proof -
  let ?env = "\<lambda>t::nat. if t = 12 then Raises KeyboardInterrupt else Done"
  let ?F = "fill_forms DEFAULT_CONFIG ?env
      [[''a'' \<mapsto> Val ''r0''], [''a'' \<mapsto> Val ''r1''], [''a'' \<mapsto> Val ''r2'']]
      [''a''] 0 None init"
  note t = abort_stops_run[of DEFAULT_CONFIG ?env
      "[[''a'' \<mapsto> Val ''r0''], [''a'' \<mapsto> Val ''r1''], [''a'' \<mapsto> Val ''r2'']]"
      "[''a'']" 0 None]
  have h: "12 < ticks ?F \<and> ?env 12 = Raises KeyboardInterrupt"
    by (simp add: interrupted_ticks)
  then have n: "12 < ticks ?F \<and> ?env 12 \<noteq> Done" by simp
  from t n have a: "Suc 12 = ticks ?F" by blast
  from t h obtain k where k: "last (trace ?F) = Print (Stopped_at_record k)" by blast
  then have k2: "k = 2" by (simp add: interrupted_trace)
  from t k have "last (started (trace ?F)) = k - 1 \<and>
      Log INFO (Successfully_processed_record k) \<notin> set (trace ?F)"
    by blast
  then show ?thesis using a k k2 by simp
qed

text \<open>
  Claim C5 as stated has the run report the index of the last fully completed record.
  With three records and a user interrupt while the second one (index 1) is typed, the
  records started are those of index 0 and 1, the only one completed has index 0, and
  the run reports "Stopped at record 2".
\<close>

theorem abort_report_counterexample:
  "last (trace (fill_forms DEFAULT_CONFIG
      (\<lambda>t. if t = 12 then Raises KeyboardInterrupt else Done)
      [[''a'' \<mapsto> Val ''r0''], [''a'' \<mapsto> Val ''r1''], [''a'' \<mapsto> Val ''r2'']]
      [''a''] 0 None init)) = Print (Stopped_at_record 2) \<and>
   started (trace (fill_forms DEFAULT_CONFIG
      (\<lambda>t. if t = 12 then Raises KeyboardInterrupt else Done)
      [[''a'' \<mapsto> Val ''r0''], [''a'' \<mapsto> Val ''r1''], [''a'' \<mapsto> Val ''r2'']]
      [''a''] 0 None init)) = [0, 1] \<and>
   completed (trace (fill_forms DEFAULT_CONFIG
      (\<lambda>t. if t = 12 then Raises KeyboardInterrupt else Done)
      [[''a'' \<mapsto> Val ''r0''], [''a'' \<mapsto> Val ''r1''], [''a'' \<mapsto> Val ''r2'']]
      [''a''] 0 None init)) = [0]"
  by (simp add: interrupted_trace)

section \<open>Runs in which every host call completes\<close>

lemma Done_type_text_run:
  "\<forall>t. env t = Done \<Longrightarrow>
   \<exists>w1. type_text cfg env x True w = (Inr True, w1) \<and>
        trace w1 = trace w @ [Act (Hotkey [''ctrl'', ''a'']), Act (Sleep 0.1),
                              Act (Write x (typing_interval cfg))]"
  by (simp add: type_text_def handlers_def bnd_def ret_def perform_def)

lemma Done_move_to_next_field_run:
  "\<forall>t. env t = Done \<Longrightarrow>
   \<exists>w1. move_to_next_field cfg env ''tab'' w = (Inr True, w1) \<and>
        trace w1 = trace w @ [Act (Press ''tab''), Act (Sleep (field_transition_delay cfg))]"
  by (simp add: move_to_next_field_def handlers_def bnd_def ret_def perform_def)

lemma Done_submit_form_run:
  "\<forall>t. env t = Done \<Longrightarrow>
   \<exists>w1. submit_form cfg env ''enter'' w = (Inr True, w1) \<and>
        trace w1 = trace w @ [Act (Press ''enter''), Act (Sleep (form_submission_delay cfg))]"
  by (simp add: submit_form_def handlers_def bnd_def ret_def perform_def)

lemma Done_delays_run:
  "\<forall>t. env t = Done \<Longrightarrow>
   \<exists>w1. bnd (perform env (Sleep (record_delay cfg)))
          (\<lambda>_. if wait_for_page_load cfg
                then perform env (Sleep (page_load_delay cfg))
                else ret ()) w = (Inr (), w1) \<and>
        trace w1 = trace w @ [Act (Sleep (record_delay cfg))] @
                   (if wait_for_page_load cfg then [Act (Sleep (page_load_delay cfg))] else [])"
  by (simp add: bnd_def ret_def perform_def)

lemma Done_fill_fields_run:
  assumes "\<forall>t. env t = Done"
  shows "\<exists>w1. fill_fields cfg env rcd fs w = (Inr True, w1) \<and>
              trace w1 = trace w @ concat (map (field_events cfg rcd) fs)"
proof (induction fs arbitrary: w)
  case Nil
  show ?case by simp
next
  case (Cons f fs)
  show ?case
  proof (cases "rcd f")
    case None
    let ?w0 = "emit (Log WARNING (Field_not_found f)) w"
    from Done_move_to_next_field_run[OF assms, of cfg ?w0] obtain w1 where
      w1: "move_to_next_field cfg env ''tab'' ?w0 = (Inr True, w1)"
          "trace w1 = trace ?w0 @ [Act (Press ''tab''), Act (Sleep (field_transition_delay cfg))]"
      by blast
    from Cons.IH[of w1] obtain w2 where
      w2: "fill_fields cfg env rcd fs w1 = (Inr True, w2)"
          "trace w2 = trace w1 @ concat (map (field_events cfg rcd) fs)"
      by blast
    have "fill_fields cfg env rcd (f # fs) w = (Inr True, w2)"
      using None w1(1) w2(1) by simp
    moreover have "trace w2 = trace w @ concat (map (field_events cfg rcd) (f # fs))"
      using None w1(2) w2(2) by (simp add: field_events_def)
    ultimately show ?thesis by blast
  next
    case (Some v)
    show ?thesis
    proof (cases "notna v")
      case False
      from Cons.IH[of w] obtain w2 where
        w2: "fill_fields cfg env rcd fs w = (Inr True, w2)"
            "trace w2 = trace w @ concat (map (field_events cfg rcd) fs)"
        by blast
      have "fill_fields cfg env rcd (f # fs) w = (Inr True, w2)"
        using Some False w2(1) by simp
      moreover have "trace w2 = trace w @ concat (map (field_events cfg rcd) (f # fs))"
        using Some False w2(2) by (simp add: field_events_def)
      ultimately show ?thesis by blast
    next
      case True
      from Done_type_text_run[OF assms, of cfg "str v" w] obtain w1 where
        w1: "type_text cfg env (str v) True w = (Inr True, w1)"
            "trace w1 = trace w @ [Act (Hotkey [''ctrl'', ''a'']), Act (Sleep 0.1),
                                   Act (Write (str v) (typing_interval cfg))]"
        by blast
      from Done_move_to_next_field_run[OF assms, of cfg w1] obtain w2 where
        w2: "move_to_next_field cfg env ''tab'' w1 = (Inr True, w2)"
            "trace w2 = trace w1 @ [Act (Press ''tab''), Act (Sleep (field_transition_delay cfg))]"
        by blast
      from Cons.IH[of w2] obtain w3 where
        w3: "fill_fields cfg env rcd fs w2 = (Inr True, w3)"
            "trace w3 = trace w2 @ concat (map (field_events cfg rcd) fs)"
        by blast
      have "fill_fields cfg env rcd (f # fs) w = (Inr True, w3)"
        using Some True w1(1) w2(1) w3(1) by simp
      moreover have "trace w3 = trace w @ concat (map (field_events cfg rcd) (f # fs))"
        using Some True w1(2) w2(2) w3(2) by (simp add: field_events_def)
      ultimately show ?thesis by blast
    qed
  qed
qed

lemma iloc_row_at:
  "- int (length data) \<le> i \<Longrightarrow> i < int (length data) \<Longrightarrow> iloc data i = Inr (row_at data i)"
  by (auto simp: iloc_def row_at_def Let_def)

lemma Done_process_record_run:
  assumes "\<forall>t. env t = Done" and "- int (length data) \<le> i" and "i < int (length data)"
  shows "\<exists>w1. process_record cfg env data fo i w = (Inr Continue, w1) \<and>
              trace w1 = trace w @ record_events cfg (int (length data)) (row_at data i) fo i"
proof -
  let ?P = "Log INFO (Processing_record (i + 1) (int (length data)))"
  let ?rcd = "row_at data i"
  note il = iloc_row_at[OF assms(2,3)]
  from Done_fill_fields_run[OF assms(1), of cfg ?rcd fo "emit ?P w"] obtain w1 where
    w1: "fill_fields cfg env ?rcd fo (emit ?P w) = (Inr True, w1)"
        "trace w1 = trace (emit ?P w) @ concat (map (field_events cfg ?rcd) fo)"
    by blast
  have f1: "fill_single_record cfg env ?rcd fo (emit ?P w) = (Inr True, w1)"
    using w1(1) by (simp add: fill_single_record_def)
  from Done_submit_form_run[OF assms(1), of cfg w1] obtain w2 where
    w2: "submit_form cfg env ''enter'' w1 = (Inr True, w2)"
        "trace w2 = trace w1 @ [Act (Press ''enter''), Act (Sleep (form_submission_delay cfg))]"
    by blast
  from Done_delays_run[OF assms(1), of cfg w2] obtain w3 where
    w3: "bnd (perform env (Sleep (record_delay cfg)))
          (\<lambda>_. if wait_for_page_load cfg
                then perform env (Sleep (page_load_delay cfg))
                else ret ()) w2 = (Inr (), w3)"
        "trace w3 = trace w2 @ [Act (Sleep (record_delay cfg))] @
                   (if wait_for_page_load cfg then [Act (Sleep (page_load_delay cfg))] else [])"
    by blast
  let ?w4 = "emit (Log INFO (Successfully_processed_record (i + 1))) w3"
  have "process_record cfg env data fo i w = (Inr Continue, ?w4)"
    using il f1 w2(1) w3(1) by (simp add: process_record_def)
  moreover have "trace ?w4 =
      trace w @ record_events cfg (int (length data)) ?rcd fo i"
    using w1(2) w2(2) w3(2) by (simp add: record_events_def)
  ultimately show ?thesis by blast
qed

lemma Done_fill_loop_run:
  assumes "\<forall>t. env t = Done"
    and "\<forall>i \<in> set is. - int (length data) \<le> i \<and> i < int (length data)"
  shows "\<exists>w1. fill_loop cfg env data fo is w = (Inr (), w1) \<and>
         trace w1 = trace w @
           concat (map (\<lambda>i. record_events cfg (int (length data)) (row_at data i) fo i) is)"
  using assms(2)
proof (induction "is" arbitrary: w)
  case Nil
  show ?case by simp
next
  case (Cons i rest)
  have "- int (length data) \<le> i" "i < int (length data)" using Cons.prems by simp_all
  from Done_process_record_run[OF assms(1) this, of cfg fo w] obtain w1 where
    w1: "process_record cfg env data fo i w = (Inr Continue, w1)"
        "trace w1 = trace w @ record_events cfg (int (length data)) (row_at data i) fo i"
    by blast
  have "\<forall>i \<in> set rest. - int (length data) \<le> i \<and> i < int (length data)"
    using Cons.prems by simp
  from Cons.IH[OF this, of w1] obtain w2 where
    w2: "fill_loop cfg env data fo rest w1 = (Inr (), w2)"
        "trace w2 = trace w1 @
           concat (map (\<lambda>i. record_events cfg (int (length data)) (row_at data i) fo i) rest)"
    by blast
  have "fill_loop cfg env data fo (i # rest) w = (Inr (), w2)"
    using w1(1) w2(1) by simp
  moreover have "trace w2 = trace w @
      concat (map (\<lambda>i. record_events cfg (int (length data)) (row_at data i) fo i) (i # rest))"
    using w1(2) w2(2) by simp
  ultimately show ?case by blast
qed

lemma Done_fill_forms_trace:
  assumes "\<forall>t. env t = Done" and "- int (length data) \<le> start_row"
  shows "trace (fill_forms cfg env data fo start_row max_records init) =
           Log INFO (Processing_records start_row (end_row data start_row max_records - 1)) #
           concat (map (\<lambda>i. record_events cfg (int (length data)) (row_at data i) fo i)
                     [start_row .. end_row data start_row max_records - 1]) @
           [Log INFO Form_filling_completed]"
proof -
  let ?is = "[start_row .. end_row data start_row max_records - 1]"
  let ?w0 = "emit (Log INFO (Processing_records start_row
                                (end_row data start_row max_records - 1))) init"
  have "end_row data start_row max_records \<le> int (length data)"
    by (simp add: end_row_def split: option.splits)
  then have "\<forall>i \<in> set ?is. - int (length data) \<le> i \<and> i < int (length data)"
    using assms(2) by auto
  from Done_fill_loop_run[OF assms(1) this, of cfg fo ?w0] obtain w1 where
    w1: "fill_loop cfg env data fo ?is ?w0 = (Inr (), w1)"
        "trace w1 = trace ?w0 @
           concat (map (\<lambda>i. record_events cfg (int (length data)) (row_at data i) fo i) ?is)"
    by blast
  have "fill_forms cfg env data fo start_row max_records init =
        emit (Log INFO Form_filling_completed) w1"
    using w1(1) by (simp add: fill_forms_def)
  then show ?thesis using w1(2) by (simp add: init_def)
qed

lemma started_field_events: "started (concat (map (field_events cfg rcd) fs)) = []"
  by (induction fs) (auto simp: field_events_def started_append split: option.splits)

lemma started_record_events: "started (record_events cfg n rcd fo i) = [i]"
  by (simp add: record_events_def started_append started_field_events)

lemma started_records:
  "started (concat (map (\<lambda>i. record_events cfg n (f i) fo i) is)) = is"
  by (induction "is") (simp_all add: started_append started_record_events)

lemma Done_fill_forms_started:
  assumes "\<forall>t. env t = Done" and "- int (length data) \<le> start_row"
  shows "started (trace (fill_forms cfg env data fo start_row max_records init)) =
           [start_row .. end_row data start_row max_records - 1]"
  by (simp add: Done_fill_forms_trace[OF assms] started_append started_records)

section \<open>The range of records of a run\<close>

lemma run_line_field_events: "filter run_line (concat (map (field_events cfg rcd) fs)) = []"
  by (induction fs) (auto simp: field_events_def split: option.splits)

lemma run_line_record_events: "filter run_line (record_events cfg n rcd fo i) = done_lines n i"
  by (simp add: record_events_def done_lines_def run_line_field_events)

lemma run_line_records:
  "filter run_line (concat (map (\<lambda>i. record_events cfg n (f i) fo i) is)) =
   concat (map (done_lines n) is)"
  by (induction "is") (simp_all add: run_line_record_events)

lemma row_at_nat: "0 \<le> i \<Longrightarrow> row_at data i = data ! nat i"
  by (simp add: row_at_def)

text \<open>
  Claim C7, amended. For every start index that is not negative and every positive
  \<open>max_records\<close>, a run in which every host call completes fills and submits exactly the
  rows of the data with the indices from \<open>start_row\<close> up to, and not including,
  \<open>min(start_row + max_records, len(data))\<close>, in increasing order: these are the indices
  in \<open>[start_row, start_row + max_records)\<close> that lie in \<open>[0, len(data))\<close>. The trace of the
  run is the announcement of the range, then for each of these indices the events of
  the row at that index, then "Form filling completed!"; nothing else is issued, and no
  failure is logged.
\<close>

theorem run_processes_range:
  assumes "\<forall>t. env t = Done" and "0 \<le> start_row" and "0 < m"
  shows "trace (fill_forms cfg env data fo start_row (Some m) init) =
           Log INFO (Processing_records start_row
                       (min (start_row + m) (int (length data)) - 1)) #
           concat (map (\<lambda>i. record_events cfg (int (length data)) (data ! nat i) fo i)
                     [start_row .. min (start_row + m) (int (length data)) - 1]) @
           [Log INFO Form_filling_completed] \<and>
         started (trace (fill_forms cfg env data fo start_row (Some m) init)) =
           [start_row .. min (start_row + m) (int (length data)) - 1] \<and>
         set (started (trace (fill_forms cfg env data fo start_row (Some m) init))) =
           {start_row ..< start_row + m} \<inter> {0 ..< int (length data)} \<and>
         run_log (fill_forms cfg env data fo start_row (Some m) init) =
           concat (map (done_lines (int (length data)))
                     [start_row .. min (start_row + m) (int (length data)) - 1]) \<and>
         last (trace (fill_forms cfg env data fo start_row (Some m) init)) =
           Log INFO Form_filling_completed"
proof -
  let ?n = "int (length data)"
  let ?is = "[start_row .. min (start_row + m) ?n - 1]"
  let ?final = "fill_forms cfg env data fo start_row (Some m) init"
  have e: "end_row data start_row (Some m) = min (start_row + m) ?n"
    using assms(3) by (simp add: end_row_def)
  have lo: "- ?n \<le> start_row" using assms(2) by simp
  have rows: "map (\<lambda>i. record_events cfg ?n (row_at data i) fo i) ?is =
              map (\<lambda>i. record_events cfg ?n (data ! nat i) fo i) ?is"
    using assms(2) by (intro map_cong) (simp_all add: row_at_nat)
  have t: "trace ?final =
      Log INFO (Processing_records start_row (min (start_row + m) ?n - 1)) #
      concat (map (\<lambda>i. record_events cfg ?n (data ! nat i) fo i) ?is) @
      [Log INFO Form_filling_completed]"
    using Done_fill_forms_trace[OF assms(1) lo, of cfg fo "Some m"] e rows by simp
  have s: "started (trace ?final) = ?is"
    using Done_fill_forms_started[OF assms(1) lo, of cfg fo "Some m"] e by simp
  have "set ?is = {start_row ..< start_row + m} \<inter> {0 ..< ?n}"
    using assms(2) by auto
  then have ss: "set (started (trace ?final)) = {start_row ..< start_row + m} \<inter> {0 ..< ?n}"
    using s by simp
  have r: "run_log ?final = concat (map (done_lines ?n) ?is)"
    by (simp add: run_log_def t run_line_records)
  have l: "last (trace ?final) = Log INFO Form_filling_completed"
    by (simp add: t)
  show ?thesis using t s ss r l by blast
qed

theorem run_processes_range_witness:
  "written (trace (fill_forms DEFAULT_CONFIG (\<lambda>_. Done)
      [[''a'' \<mapsto> Val ''r0''], [''a'' \<mapsto> Val ''r1''], [''a'' \<mapsto> Val ''r2''],
       [''a'' \<mapsto> Val ''r3''], [''a'' \<mapsto> Val ''r4'']] [''a''] 1 (Some 2) init)) =
     [''r1'', ''r2''] \<and>
   presses (trace (fill_forms DEFAULT_CONFIG (\<lambda>_. Done)
      [[''a'' \<mapsto> Val ''r0''], [''a'' \<mapsto> Val ''r1''], [''a'' \<mapsto> Val ''r2''],
       [''a'' \<mapsto> Val ''r3''], [''a'' \<mapsto> Val ''r4'']] [''a''] 1 (Some 2) init)) =
     [''tab'', ''enter'', ''tab'', ''enter''] \<and>
   started (trace (fill_forms DEFAULT_CONFIG (\<lambda>_. Done)
      [[''a'' \<mapsto> Val ''r0''], [''a'' \<mapsto> Val ''r1''], [''a'' \<mapsto> Val ''r2''],
       [''a'' \<mapsto> Val ''r3''], [''a'' \<mapsto> Val ''r4'']] [''a''] 1 (Some 2) init)) = [1, 2] \<and>
   run_log (fill_forms DEFAULT_CONFIG (\<lambda>_. Done)
      [[''a'' \<mapsto> Val ''r0''], [''a'' \<mapsto> Val ''r1''], [''a'' \<mapsto> Val ''r2''],
       [''a'' \<mapsto> Val ''r3''], [''a'' \<mapsto> Val ''r4'']] [''a''] 1 (Some 2) init) =
     [Log INFO (Processing_record 2 5), Log INFO (Successfully_processed_record 2),
      Log INFO (Processing_record 3 5), Log INFO (Successfully_processed_record 3)] \<and>
   last (trace (fill_forms DEFAULT_CONFIG (\<lambda>_. Done)
      [[''a'' \<mapsto> Val ''r0''], [''a'' \<mapsto> Val ''r1''], [''a'' \<mapsto> Val ''r2''],
       [''a'' \<mapsto> Val ''r3''], [''a'' \<mapsto> Val ''r4'']] [''a''] 1 (Some 2) init)) =
     Log INFO Form_filling_completed"
  using run_processes_range[of "\<lambda>_. Done" 1 2 DEFAULT_CONFIG
      "[[''a'' \<mapsto> Val ''r0''], [''a'' \<mapsto> Val ''r1''], [''a'' \<mapsto> Val ''r2''],
       [''a'' \<mapsto> Val ''r3''], [''a'' \<mapsto> Val ''r4'']]" "[''a'']"]
  by (simp add: upto.simps done_lines_def record_events_def field_events_def
      DEFAULT_CONFIG_def)

text \<open>
  Claim C7 as stated, for every start index, fails for a negative one: \<open>range\<close> then
  begins below zero and \<open>data.iloc\<close> counts a negative index from the end. With three
  records, \<open>start_row = -1\<close> and \<open>max_records = 2\<close> the run handles the indices \<open>-1\<close> and
  \<open>0\<close>, typing the last row and then the first, where the claim has index \<open>0\<close> only.
\<close>

theorem negative_start_row_counterexample:
  "started (trace (fill_forms DEFAULT_CONFIG (\<lambda>_. Done)
      [[''a'' \<mapsto> Val ''r0''], [''a'' \<mapsto> Val ''r1''], [''a'' \<mapsto> Val ''r2'']]
      [''a''] (- 1) (Some 2) init)) = [- 1, 0] \<and>
   written (trace (fill_forms DEFAULT_CONFIG (\<lambda>_. Done)
      [[''a'' \<mapsto> Val ''r0''], [''a'' \<mapsto> Val ''r1''], [''a'' \<mapsto> Val ''r2'']]
      [''a''] (- 1) (Some 2) init)) = [''r2'', ''r0''] \<and>
   set (started (trace (fill_forms DEFAULT_CONFIG (\<lambda>_. Done)
      [[''a'' \<mapsto> Val ''r0''], [''a'' \<mapsto> Val ''r1''], [''a'' \<mapsto> Val ''r2'']]
      [''a''] (- 1) (Some 2) init))) \<noteq> {- 1 ..< - 1 + 2} \<inter> {0 ..< 3}"
proof -
  let ?final = "fill_forms DEFAULT_CONFIG (\<lambda>_. Done)
      [[''a'' \<mapsto> Val ''r0''], [''a'' \<mapsto> Val ''r1''], [''a'' \<mapsto> Val ''r2'']]
      [''a''] (- 1) (Some 2) init"
  have t: "trace ?final =
      [Log INFO (Processing_records (- 1) 0),
       Log INFO (Processing_record 0 3), Act (Hotkey [''ctrl'', ''a'']),
       Act (Sleep (1 / 10)), Act (Write ''r2'' (1 / 20)),
       Act (Press ''tab''), Act (Sleep (3 / 10)), Act (Press ''enter''),
       Act (Sleep 2), Act (Sleep 1), Act (Sleep 3),
       Log INFO (Successfully_processed_record 0),
       Log INFO (Processing_record 1 3), Act (Hotkey [''ctrl'', ''a'']),
       Act (Sleep (1 / 10)), Act (Write ''r0'' (1 / 20)),
       Act (Press ''tab''), Act (Sleep (3 / 10)), Act (Press ''enter''),
       Act (Sleep 2), Act (Sleep 1), Act (Sleep 3),
       Log INFO (Successfully_processed_record 1),
       Log INFO Form_filling_completed]"
    by (simp add: fill_forms_def end_row_def process_record_def iloc_def submit_form_def
      fill_single_record_def type_text_def move_to_next_field_def handlers_def
      bnd_def ret_def perform_def emit_def init_def DEFAULT_CONFIG_def upto.simps)
  have s: "started (trace ?final) = [- 1, 0]" by (simp add: t)
  have w: "written (trace ?final) = [''r2'', ''r0'']" by (simp add: t)
  have "(- 1 :: int) \<in> set [- 1, 0]" by simp
  moreover have "(- 1 :: int) \<notin> {- 1 ..< - 1 + 2} \<inter> {0 ..< 3}" by simp
  ultimately have "set [- 1, 0 :: int] \<noteq> {- 1 ..< - 1 + 2} \<inter> {0 ..< 3}" by metis
  then show ?thesis using s w by simp
qed

text \<open>
  Claim C10, amended. \<open>max_records = 0\<close> is no limit: the run is the same as with
  \<open>max_records = None\<close>, whatever the host does. When every host call completes and
  \<open>start_row\<close> is at least \<open>-len(data)\<close>, the run fills and submits, in order, the row
  \<open>data.iloc[index]\<close> for every index from \<open>start_row\<close> to \<open>len(data) - 1\<close> (an index
  below zero counting from the end of the table), and completes.
\<close>

theorem zero_max_records_is_no_limit:
  "fill_forms cfg env data fo start_row (Some 0) w =
     fill_forms cfg env data fo start_row None w \<and>
   ((\<forall>t. env t = Done) \<and> - int (length data) \<le> start_row \<longrightarrow>
      trace (fill_forms cfg env data fo start_row (Some 0) init) =
        Log INFO (Processing_records start_row (int (length data) - 1)) #
        concat (map (\<lambda>i. record_events cfg (int (length data)) (row_at data i) fo i)
                  [start_row .. int (length data) - 1]) @
        [Log INFO Form_filling_completed] \<and>
      started (trace (fill_forms cfg env data fo start_row (Some 0) init)) =
        [start_row .. int (length data) - 1])"
proof -
  have e: "end_row data start_row (Some 0) = int (length data)"
    by (simp add: end_row_def)
  have "fill_forms cfg env data fo start_row (Some 0) w =
     fill_forms cfg env data fo start_row None w"
    by (simp add: fill_forms_def end_row_def)
  moreover have "(\<forall>t. env t = Done) \<and> - int (length data) \<le> start_row \<longrightarrow>
      trace (fill_forms cfg env data fo start_row (Some 0) init) =
        Log INFO (Processing_records start_row (int (length data) - 1)) #
        concat (map (\<lambda>i. record_events cfg (int (length data)) (row_at data i) fo i)
                  [start_row .. int (length data) - 1]) @
        [Log INFO Form_filling_completed] \<and>
      started (trace (fill_forms cfg env data fo start_row (Some 0) init)) =
        [start_row .. int (length data) - 1]"
    using Done_fill_forms_trace[of env data start_row cfg fo "Some 0"]
      Done_fill_forms_started[of env data start_row cfg fo "Some 0"] e by simp
  ultimately show ?thesis by blast
qed

theorem zero_max_records_is_no_limit_witness:
  "fill_forms DEFAULT_CONFIG (\<lambda>_. Done)
      [[''a'' \<mapsto> Val ''r0''], [''a'' \<mapsto> Val ''r1''], [''a'' \<mapsto> Val ''r2'']]
      [''a''] (- 1) (Some 0) init =
   fill_forms DEFAULT_CONFIG (\<lambda>_. Done)
      [[''a'' \<mapsto> Val ''r0''], [''a'' \<mapsto> Val ''r1''], [''a'' \<mapsto> Val ''r2'']]
      [''a''] (- 1) None init \<and>
   written (trace (fill_forms DEFAULT_CONFIG (\<lambda>_. Done)
      [[''a'' \<mapsto> Val ''r0''], [''a'' \<mapsto> Val ''r1''], [''a'' \<mapsto> Val ''r2'']]
      [''a''] (- 1) (Some 0) init)) = [''r2'', ''r0'', ''r1'', ''r2''] \<and>
   started (trace (fill_forms DEFAULT_CONFIG (\<lambda>_. Done)
      [[''a'' \<mapsto> Val ''r0''], [''a'' \<mapsto> Val ''r1''], [''a'' \<mapsto> Val ''r2'']]
      [''a''] (- 1) (Some 0) init)) = [- 1, 0, 1, 2]"
proof -
  let ?data = "[[''a'' \<mapsto> Val ''r0''], [''a'' \<mapsto> Val ''r1''], [''a'' \<mapsto> Val ''r2'']]"
  note t = zero_max_records_is_no_limit[of DEFAULT_CONFIG "\<lambda>_. Done" ?data "[''a'']" "- 1" init]
  have h: "(\<forall>t::nat. (\<lambda>_. Done) t = Done) \<and> - int (length ?data) \<le> - 1" by simp
  from t have a: "fill_forms DEFAULT_CONFIG (\<lambda>_. Done) ?data [''a''] (- 1) (Some 0) init =
      fill_forms DEFAULT_CONFIG (\<lambda>_. Done) ?data [''a''] (- 1) None init"
    by blast
  from t h have b: "trace (fill_forms DEFAULT_CONFIG (\<lambda>_. Done) ?data [''a''] (- 1) (Some 0) init) =
        Log INFO (Processing_records (- 1) (int (length ?data) - 1)) #
        concat (map (\<lambda>i. record_events DEFAULT_CONFIG (int (length ?data)) (row_at ?data i) [''a''] i)
                  [- 1 .. int (length ?data) - 1]) @
        [Log INFO Form_filling_completed]"
    by blast
  have w: "written (trace (fill_forms DEFAULT_CONFIG (\<lambda>_. Done) ?data [''a''] (- 1) (Some 0) init)) =
      [''r2'', ''r0'', ''r1'', ''r2'']"
    unfolding b
    by (simp add: upto.simps record_events_def field_events_def row_at_def DEFAULT_CONFIG_def)
  have s: "started (trace (fill_forms DEFAULT_CONFIG (\<lambda>_. Done) ?data [''a''] (- 1) (Some 0) init)) =
      [- 1, 0, 1, 2]"
    unfolding b
    by (simp add: upto.simps record_events_def field_events_def row_at_def DEFAULT_CONFIG_def)
  show ?thesis using a w s by blast
qed

text \<open>
  Claim C10 as stated, for any start index, fails below \<open>-len(data)\<close>: the first
  \<open>data.iloc[index]\<close> raises \<open>IndexError\<close>, the run logs "Unexpected error" and no record
  is filled. Here with three records and \<open>start_row = -4\<close>.
\<close>

theorem start_row_out_of_range_counterexample:
  "trace (fill_forms DEFAULT_CONFIG (\<lambda>_. Done)
      [[''a'' \<mapsto> Val ''r0''], [''a'' \<mapsto> Val ''r1''], [''a'' \<mapsto> Val ''r2'']]
      [''a''] (- 4) (Some 0) init) =
     [Log INFO (Processing_records (- 4) 2), Log ERROR Unexpected_error] \<and>
   written (trace (fill_forms DEFAULT_CONFIG (\<lambda>_. Done)
      [[''a'' \<mapsto> Val ''r0''], [''a'' \<mapsto> Val ''r1''], [''a'' \<mapsto> Val ''r2'']]
      [''a''] (- 4) (Some 0) init)) = []"
  by (simp add: fill_forms_def end_row_def process_record_def iloc_def
      emit_def init_def upto.simps)

end
